theory Spec2Isabelle
  imports Main "HOL-Library.Word"
begin

section \<open>Shared vocabulary\<close>

text \<open>
  Workers, containers, volumes and processes are remote objects that the Go code only
  holds references to (interface values compared by identity). They are modelled by
  their names.
\<close>

type_synonym Worker = string
type_synonym Container = string
type_synonym Volume = string

record WorkerSpec =
  Platform :: string
  Tags :: "string list"
  ResourceType :: string

text \<open>
  Go errors. \<open>ErrorsNew msg\<close> is the value of \<open>errors.New(msg)\<close> (or \<open>fmt.Errorf\<close>)
  built by the code under verification; \<open>Foreign msg\<close> is an error value handed back by
  a collaborator (worker, container runtime, volume manager, resource), of which the code
  only ever inspects the text \<open>err.Error() = msg\<close>. \<open>NilDereference\<close> is the run-time
  panic of a method call on a nil interface value. \<open>ErrInterrupted\<close> is the error
  variable of that name, declared elsewhere in package \<open>exec\<close>; \<open>ScanError\<close> stands for
  the errors of \<open>fmt.Sscanf\<close>.
\<close>

datatype error =
    ErrNoWorkers
  | NoCompatibleWorkersError WorkerSpec "Worker list"
  | MissingInputsError "string list"
  | ErrImageUnavailable
  | ErrImageGetDidNotProduceVolume string
  | ErrInterrupted
  | ErrorsNew string
  | Foreign string
  | ScanError
  | NilDereference

text \<open>\<open>strings.HasPrefix\<close> and \<open>strings.Contains\<close> of the Go standard library.\<close>

fun strings_HasPrefix :: "string \<Rightarrow> string \<Rightarrow> bool" where
  "strings_HasPrefix s [] = True"
| "strings_HasPrefix [] (p # ps) = False"
| "strings_HasPrefix (c # cs) (p # ps) = (c = p \<and> strings_HasPrefix cs ps)"

fun strings_Contains :: "string \<Rightarrow> string \<Rightarrow> bool" where
  "strings_Contains [] sub = (sub = [])"
| "strings_Contains (c # cs) sub = (strings_HasPrefix (c # cs) sub \<or> strings_Contains cs sub)"

section \<open>The worker pool (worker/pool.go)\<close>

text \<open>
  The pool talks to its \<open>WorkerProvider\<close> and to the \<open>Worker\<close> interface. The methods
  the pool calls are the fields of \<open>pool_env\<close>; a method that returns \<open>(x, error)\<close>
  returns a sum, \<open>Inl\<close> carrying the text of the error. \<open>InputVolumeOn i w\<close> is what
  \<open>VolumeOn(w)\<close> of the source of the input named \<open>i\<close> answers: whether a volume was
  found, or an error.
\<close>

record pool_env =
  RunningWorkers :: "string + Worker list"
  Satisfying :: "Worker \<Rightarrow> WorkerSpec \<Rightarrow> string + Worker"
  IsOwnedByTeam :: "Worker \<Rightarrow> bool"
  FindOrCreateBuildContainer :: "Worker \<Rightarrow> string + Container"
  FindWorkerForBuildContainer :: "string + Worker option"
  InputVolumeOn :: "string \<Rightarrow> Worker \<Rightarrow> string + bool"

text \<open>
  The loop of \<open>pool.AllSatisfying\<close> over the running workers, with its two accumulators
  \<open>compatibleTeamWorkers\<close> and \<open>compatibleGeneralWorkers\<close>.
\<close>

fun compatibleWorkers :: "pool_env \<Rightarrow> WorkerSpec \<Rightarrow> Worker list \<Rightarrow> Worker list
    \<Rightarrow> Worker list \<Rightarrow> Worker list \<times> Worker list" where
  "compatibleWorkers env spec [] team general = (team, general)"
| "compatibleWorkers env spec (w # ws) team general =
     (case Satisfying env w spec of
        Inr satisfyingWorker \<Rightarrow>
          (if IsOwnedByTeam env w
           then compatibleWorkers env spec ws (team @ [satisfyingWorker]) general
           else compatibleWorkers env spec ws team (general @ [satisfyingWorker]))
      | Inl err \<Rightarrow> compatibleWorkers env spec ws team general)"

definition AllSatisfying :: "pool_env \<Rightarrow> WorkerSpec \<Rightarrow> error + Worker list" where
  "AllSatisfying env spec =
     (case RunningWorkers env of
        Inl err \<Rightarrow> Inl (Foreign err)
      | Inr workers \<Rightarrow>
          if length workers = 0 then Inl ErrNoWorkers
          else
            (case compatibleWorkers env spec workers [] [] of
               (compatibleTeamWorkers, compatibleGeneralWorkers) \<Rightarrow>
                 if length compatibleTeamWorkers \<noteq> 0 then Inr compatibleTeamWorkers
                 else if length compatibleGeneralWorkers \<noteq> 0 then Inr compatibleGeneralWorkers
                 else Inl (NoCompatibleWorkersError spec workers)))"

text \<open>
  \<open>pool.findWorkerNotRunningVTXTask\<close>. Beside the result the model returns the workers on
  which \<open>FindOrCreateBuildContainer\<close> was called, in call order.
\<close>

definition maxContainersMessage :: string where
  "maxContainersMessage = ''worker already has the maximum number of active containers''"

fun findWorkerNotRunningVTXTask :: "pool_env \<Rightarrow> Worker list
    \<Rightarrow> (error + Container) \<times> Worker list" where
  "findWorkerNotRunningVTXTask env [] =
     (Inl (ErrorsNew ''failed to create container on all compatible workers''), [])"
| "findWorkerNotRunningVTXTask env (w # ws) =
     (case FindOrCreateBuildContainer env w of
        Inl err \<Rightarrow>
          if strings_Contains err maxContainersMessage
          then (case findWorkerNotRunningVTXTask env ws of (r, tried) \<Rightarrow> (r, w # tried))
          else (Inl (Foreign err), [w])
      | Inr container \<Rightarrow> (Inr container, [w]))"

text \<open>
  The placement of \<open>pool.FindOrCreateBuildContainer\<close>: the inner loop counts the inputs
  of the container spec that have a volume on a worker, the outer loop files every
  compatible worker under its count and keeps the highest count.
\<close>

fun candidateInputCount :: "pool_env \<Rightarrow> Worker \<Rightarrow> string list \<Rightarrow> nat \<Rightarrow> string + nat" where
  "candidateInputCount env w [] count = Inr count"
| "candidateInputCount env w (inputSource # inputs) count =
     (case InputVolumeOn env inputSource w of
        Inl err \<Rightarrow> Inl err
      | Inr found \<Rightarrow> candidateInputCount env w inputs (if found then count + 1 else count))"

fun workersByCountLoop :: "pool_env \<Rightarrow> string list \<Rightarrow> Worker list \<Rightarrow> (nat \<Rightarrow> Worker list) \<Rightarrow> nat
    \<Rightarrow> string + ((nat \<Rightarrow> Worker list) \<times> nat)" where
  "workersByCountLoop env inputs [] workersByCount highestCount =
     Inr (workersByCount, highestCount)"
| "workersByCountLoop env inputs (w # ws) workersByCount highestCount =
     (case candidateInputCount env w inputs 0 of
        Inl err \<Rightarrow> Inl err
      | Inr count \<Rightarrow>
          workersByCountLoop env inputs ws
            (workersByCount(count := workersByCount count @ [w]))
            (if count \<ge> highestCount then count else highestCount))"

definition pool_FindOrCreateBuildContainer :: "pool_env \<Rightarrow> WorkerSpec \<Rightarrow> string list
    \<Rightarrow> (error + Container) \<times> Worker list" where
  "pool_FindOrCreateBuildContainer env spec inputs =
     (case FindWorkerForBuildContainer env of
        Inl err \<Rightarrow> (Inl (Foreign err), [])
      | Inr (Some worker) \<Rightarrow>
          (case FindOrCreateBuildContainer env worker of
             Inl err \<Rightarrow> (Inl (Foreign err), [worker])
           | Inr c \<Rightarrow> (Inr c, [worker]))
      | Inr None \<Rightarrow>
          (case AllSatisfying env spec of
             Inl err \<Rightarrow> (Inl err, [])
           | Inr compatible \<Rightarrow>
               (case workersByCountLoop env inputs compatible (\<lambda>count. []) 0 of
                  Inl err \<Rightarrow> (Inl (Foreign err), [])
                | Inr (workersByCount, highestCount) \<Rightarrow>
                    findWorkerNotRunningVTXTask env (workersByCount highestCount))))"

text \<open>The number of inputs that have a volume on a worker.\<close>

definition inputCount :: "pool_env \<Rightarrow> string list \<Rightarrow> Worker \<Rightarrow> nat" where
  "inputCount env inputs w = length (filter (\<lambda>i. InputVolumeOn env i w = Inr True) inputs)"

text \<open>
  The reading of the tenant-preference rule: the answers of \<open>Satisfying\<close> for the
  team-owned workers, and for the others, each in pool order.
\<close>

definition satisfyingOwned :: "pool_env \<Rightarrow> WorkerSpec \<Rightarrow> bool \<Rightarrow> Worker list \<Rightarrow> Worker list" where
  "satisfyingOwned env spec owned workers =
     List.map_filter
       (\<lambda>w. case Satisfying env w spec of
               Inr sw \<Rightarrow> if IsOwnedByTeam env w = owned then Some sw else None
             | Inl err \<Rightarrow> None)
       workers"

text \<open>A worker is skipped when its creation error mentions the container limit.\<close>

definition skipped :: "pool_env \<Rightarrow> Worker \<Rightarrow> bool" where
  "skipped env w =
     (case FindOrCreateBuildContainer env w of
        Inl err \<Rightarrow> strings_Contains err maxContainersMessage
      | Inr container \<Rightarrow> False)"

text \<open>Example pools: the running workers, those that satisfy any spec, the team-owned
  ones, and what creating a container on each worker answers.\<close>

definition examplePool :: "Worker list \<Rightarrow> Worker list \<Rightarrow> Worker list
    \<Rightarrow> (Worker \<Rightarrow> string + Container) \<Rightarrow> pool_env" where
  "examplePool workers compatible team create =
     \<lparr>RunningWorkers = Inr workers,
      Satisfying = (\<lambda>w spec. if w \<in> set compatible then Inr w else Inl ''incompatible''),
      IsOwnedByTeam = (\<lambda>w. w \<in> set team),
      FindOrCreateBuildContainer = create,
      FindWorkerForBuildContainer = Inr None,
      InputVolumeOn = (\<lambda>i w. Inr False)\<rparr>"

definition exampleSpec :: WorkerSpec where
  "exampleSpec = \<lparr>Platform = ''linux'', Tags = [], ResourceType = ''git''\<rparr>"

definition exampleCreate :: "Worker \<Rightarrow> string + Container" where
  "exampleCreate w =
     (if w = ''full'' then Inl ''worker already has the maximum number of active containers: 250''
      else if w = ''broken'' then Inl ''connection refused''
      else Inr (''container-on-'' @ w))"

section \<open>Decimal text of an exit status\<close>

text \<open>
  A Go \<open>int\<close> is a 64-bit two's complement integer on the platforms the program is
  built for. \<open>Sprintf_d\<close> is \<open>fmt.Sprintf("%d", n)\<close>: an optional minus sign and the
  decimal digits, most significant first, without padding.
\<close>

type_synonym go_int = "64 word"

definition digitChar :: "nat \<Rightarrow> char" where
  "digitChar d = char_of (48 + d)"

fun decimalDigits :: "nat \<Rightarrow> string" where
  "decimalDigits n =
     (if n < 10 then [digitChar n] else decimalDigits (n div 10) @ [digitChar (n mod 10)])"

declare decimalDigits.simps [simp del]

definition formatInt :: "int \<Rightarrow> string" where
  "formatInt v = (if v < 0 then CHR ''-'' # decimalDigits (nat (- v)) else decimalDigits (nat v))"

definition Sprintf_d :: "go_int \<Rightarrow> string" where
  "Sprintf_d n = formatInt (sint n)"

text \<open>
  \<open>Sscanf_d s\<close> is \<open>fmt.Sscanf(s, "%d", &n)\<close> of the Go standard library: leading
  blanks are skipped (a newline there is an error), one sign is accepted, then the
  longest run of decimal digits is read; no digit at all, or a value outside the range of
  \<open>int\<close>, is an error; whatever follows the digits is left unread. \<open>Inr n\<close> is the value
  stored through the pointer when the error is nil.
\<close>

definition isBlank :: "char \<Rightarrow> bool" where
  "isBlank c = (c = CHR '' '' \<or> c = CHR 0x09 \<or> c = CHR 0x0B \<or> c = CHR 0x0C \<or> c = CHR 0x0D)"

definition isDigit :: "char \<Rightarrow> bool" where
  "isDigit c = (48 \<le> (of_char c :: nat) \<and> (of_char c :: nat) \<le> 57)"

definition digitsValue :: "string \<Rightarrow> nat" where
  "digitsValue ds = foldl (\<lambda>acc c. 10 * acc + ((of_char c :: nat) - 48)) 0 ds"

definition scanInt :: "string \<Rightarrow> error + int" where
  "scanInt s =
     (case dropWhile isBlank s of
        [] \<Rightarrow> Inl ScanError
      | c # cs \<Rightarrow>
          let negative = (c = CHR ''-'');
              rest = (if c = CHR ''-'' \<or> c = CHR ''+'' then cs else c # cs);
              tok = takeWhile isDigit rest
          in if tok = [] then Inl ScanError
             else Inr (if negative then - int (digitsValue tok) else int (digitsValue tok)))"

definition Sscanf_d :: "string \<Rightarrow> error + go_int" where
  "Sscanf_d s =
     (case scanInt s of
        Inl err \<Rightarrow> Inl err
      | Inr v \<Rightarrow>
          if - (2 ^ 63) \<le> v \<and> v < 2 ^ 63 then Inr (word_of_int v) else Inl ScanError)"

section \<open>The task step: data\<close>

record TaskInputConfig =
  InputName :: string
  InputPath :: string

record TaskOutputConfig =
  OutputName :: string
  OutputPath :: string

record TaskImageResource =
  ImageType :: string
  ImageSource :: string

text \<open>\<open>Params\<close> is a Go map; the list gives its pairs in the order the map is iterated.\<close>

record TaskConfig =
  TaskPlatform :: string
  Image :: string
  ImageResource :: "TaskImageResource option"
  Inputs :: "TaskInputConfig list"
  Outputs :: "TaskOutputConfig list"
  Params :: "(string \<times> string) list"
  RunPath :: string
  RunArgs :: "string list"

text \<open>A volume is known by its handle.\<close>

record VolumeMount =
  MountVolume :: Volume
  MountPath :: string

record TaskContainerSpec =
  SpecPlatform :: string
  SpecTags :: "string list"
  SpecPrivileged :: bool
  SpecInputs :: "VolumeMount list"
  SpecOutputs :: "VolumeMount list"
  SpecImage :: string
  SpecImageVolume :: "Volume option"

record ProcessSpec =
  ProcPath :: string
  ProcArgs :: "string list"
  ProcEnv :: "string list"
  ProcDir :: string
  ProcUser :: string

text \<open>
  The artifact sources a repository can hold: a task step itself (registered under its
  source name when the task declares no outputs), a \<open>containerSource\<close> with its fields
  \<open>artifactsRoot\<close>, \<open>container\<close>, \<open>outputConfig\<close> and \<open>volumeHandle\<close>, and a source
  registered by some other kind of step, known by a name.
\<close>

datatype ArtifactSource =
    TaskStepSource string
  | ContainerSource string Container TaskOutputConfig string
  | OtherSource string

text \<open>
  Modelled from the spec: the \<open>SourceRepository\<close> type, whose source file is not among
  the sources. The spec describes a map from source names to artifact sources, with
  \<open>register(name, source)\<close>, last writer wins, and \<open>lookup(name)\<close>.
\<close>

type_synonym SourceRepository = "string \<rightharpoonup> ArtifactSource"

definition RegisterSource :: "string \<Rightarrow> ArtifactSource \<Rightarrow> SourceRepository \<Rightarrow> SourceRepository" where
  "RegisterSource name source r = r(name \<mapsto> source)"

definition SourceFor :: "SourceRepository \<Rightarrow> string \<Rightarrow> ArtifactSource option" where
  "SourceFor r name = r name"

type_synonym inputPair = "TaskInputConfig \<times> ArtifactSource"

text \<open>
  What the \<open>select\<close> statement of \<open>Run\<close> observes first: the cancellation signal, the exit
  status delivered by \<open>process.Wait\<close>, or the error of \<open>process.Wait\<close>.
\<close>

datatype wait_outcome = Signalled | Exited go_int | WaitFailed string

text \<open>The calls a run makes on its collaborators, in the order it makes them.\<close>

datatype call =
    Initializing
  | Started
  | Finished go_int
  | CloseReady
  | CreateVolumeCall Worker
  | CheckCall Worker
  | GetCall Worker string
  | CacheInitializeCall Worker string
  | ResourceReleaseCall Worker
  | VolumeReleaseCall Volume
  | CreateContainerCall Worker
  | StreamInCall Container string
  | StreamToCall ArtifactSource Container string
  | RunCall Container ProcessSpec
  | AttachCall Container string
  | SetPropertyCall Container string string
  | StopCall Container bool

text \<open>
  The collaborators of a task step: the task config source, the worker pool, the workers
  with their volume managers, the resource tracker, and the container runtime. Each field
  is what the named method answers; a Go result \<open>(x, error)\<close> is a sum whose \<open>Inl\<close>
  carries the text of the error, a lone \<open>error\<close> result is an option (\<open>None\<close> for nil),
  and \<open>(x, found, error)\<close> is a sum over an option. \<open>pathJoin\<close> is \<open>path.Join\<close> (and
  \<open>filepath.Join\<close>) of the standard library on two elements. \<open>propertyNotFound\<close> is the
  text of the error with which \<open>container.Property\<close> answers for a property the
  container does not carry. \<open>CreateVolume\<close> also receives the number of output volumes
  created before on that worker in the same loop.
\<close>

record task_env =
  pathJoin :: "string \<Rightarrow> string \<Rightarrow> string"
  propertyNotFound :: string
  FetchConfig :: "SourceRepository \<Rightarrow> string + TaskConfig"
  FindContainerForIdentifier :: "string + Container option"
  workerPoolAllSatisfying :: "WorkerSpec \<Rightarrow> error + Worker list"
  VolumeManager :: "Worker \<Rightarrow> bool"
  LookupVolume :: "Worker \<Rightarrow> string \<Rightarrow> string + Volume option"
  OtherVolumeOn :: "string \<Rightarrow> Worker \<Rightarrow> string + Volume option"
  CreateVolume :: "Worker \<Rightarrow> nat \<Rightarrow> string + Volume"
  TrackerInit :: "Worker \<Rightarrow> string option"
  Check :: "Worker \<Rightarrow> string + string list"
  InitWithCache :: "Worker \<Rightarrow> string \<Rightarrow> string option"
  IsInitialized :: "Worker \<Rightarrow> string \<Rightarrow> string + bool"
  GetRun :: "Worker \<Rightarrow> string \<Rightarrow> string option"
  CacheVolume :: "Worker \<Rightarrow> string + Volume option"
  CreateContainer :: "Worker \<Rightarrow> TaskContainerSpec \<Rightarrow> string + Container"
  VolumeMounts :: "Container \<Rightarrow> VolumeMount list"
  StreamIn :: "Container \<Rightarrow> string \<Rightarrow> string option"
  StreamTo :: "ArtifactSource \<Rightarrow> Container \<Rightarrow> TaskInputConfig \<Rightarrow> string option"
  ContainerRun :: "Container \<Rightarrow> ProcessSpec \<Rightarrow> string + string"
  Attach :: "Container \<Rightarrow> string \<Rightarrow> string option"
  SetProperty :: "Container \<Rightarrow> string \<Rightarrow> string \<Rightarrow> string option"
  Wait :: wait_outcome

text \<open>
  The fields of the \<open>TaskStep\<close> struct that \<open>Run\<close> reads and writes, the contents of the
  source repository it points to, and two parts of the world its calls change: the
  properties stored on the containers, and the calls made so far.
\<close>

record TaskStep =
  sourceName :: string
  artifactsRoot :: string
  privileged :: bool
  tags :: "string list"
  repo :: SourceRepository
  container :: "Container option"
  process :: "string option"
  exitStatus :: go_int
  properties :: "Container \<Rightarrow> string \<rightharpoonup> string"
  calls :: "call list"

definition taskProcessPropertyName :: string where
  "taskProcessPropertyName = ''concourse:task-process''"

definition taskExitStatusPropertyName :: string where
  "taskExitStatusPropertyName = ''concourse:exit-status''"

definition called :: "call list \<Rightarrow> TaskStep \<Rightarrow> TaskStep" where
  "called cs step = step\<lparr>calls := calls step @ cs\<rparr>"

section \<open>The task step: artifact sources and worker selection\<close>

definition artifactsPath :: "task_env \<Rightarrow> TaskOutputConfig \<Rightarrow> string \<Rightarrow> string" where
  "artifactsPath env outputConfig root =
     (let outputSrc = (if length (OutputPath outputConfig) = 0 then OutputName outputConfig
                       else OutputPath outputConfig)
      in pathJoin env root outputSrc @ ''/'')"

definition inputDestination :: "task_env \<Rightarrow> string \<Rightarrow> TaskInputConfig \<Rightarrow> string" where
  "inputDestination env root config =
     (let subdir = (if InputPath config = '''' then InputName config else InputPath config)
      in pathJoin env root subdir)"

text \<open>
  \<open>VolumeOn\<close> of the three kinds of source: \<open>TaskStep.VolumeOn\<close>, \<open>containerSource.VolumeOn\<close>,
  and the answer of a source of another kind. \<open>Inr None\<close> is \<open>(nil, false, nil)\<close>.
\<close>

fun VolumeOn :: "task_env \<Rightarrow> ArtifactSource \<Rightarrow> Worker \<Rightarrow> string + Volume option" where
  "VolumeOn env (TaskStepSource name) w = Inr None"
| "VolumeOn env (ContainerSource root c outputConfig volumeHandle) w =
     (if length volumeHandle > 0 \<and> VolumeManager env w
      then (case LookupVolume env w volumeHandle of
              Inl err \<Rightarrow> Inl err
            | Inr found \<Rightarrow> Inr found)
      else Inr None)"
| "VolumeOn env (OtherSource name) w = OtherVolumeOn env name w"

text \<open>
  The loop of \<open>TaskStep.inputsOn\<close>, with its accumulators \<open>mounts\<close>, \<open>inputPairs\<close> and
  \<open>missingInputs\<close>, and the check after it.
\<close>

fun inputsOnLoop :: "task_env \<Rightarrow> SourceRepository \<Rightarrow> string \<Rightarrow> Worker \<Rightarrow> TaskInputConfig list
    \<Rightarrow> VolumeMount list \<Rightarrow> inputPair list \<Rightarrow> string list
    \<Rightarrow> error + (VolumeMount list \<times> inputPair list)" where
  "inputsOnLoop env r root chosenWorker [] mounts inputPairs missingInputs =
     (if length missingInputs > 0 then Inl (MissingInputsError missingInputs)
      else Inr (mounts, inputPairs))"
| "inputsOnLoop env r root chosenWorker (input # inputs) mounts inputPairs missingInputs =
     (case SourceFor r (InputName input) of
        None \<Rightarrow>
          inputsOnLoop env r root chosenWorker inputs mounts inputPairs
            (missingInputs @ [InputName input])
      | Some source \<Rightarrow>
          (case VolumeOn env source chosenWorker of
             Inl err \<Rightarrow> Inl (Foreign err)
           | Inr (Some volume) \<Rightarrow>
               inputsOnLoop env r root chosenWorker inputs
                 (mounts @ [\<lparr>MountVolume = volume,
                             MountPath = inputDestination env root input\<rparr>])
                 inputPairs missingInputs
           | Inr None \<Rightarrow>
               inputsOnLoop env r root chosenWorker inputs mounts
                 (inputPairs @ [(input, source)]) missingInputs))"

definition inputsOn :: "task_env \<Rightarrow> SourceRepository \<Rightarrow> string \<Rightarrow> TaskInputConfig list \<Rightarrow> Worker
    \<Rightarrow> error + (VolumeMount list \<times> inputPair list)" where
  "inputsOn env r root inputs chosenWorker = inputsOnLoop env r root chosenWorker inputs [] [] []"

text \<open>
  The loop of \<open>TaskStep.chooseWorkerWithMostVolumes\<close>. The accumulators are
  \<open>chosenWorker\<close> (nil before the first iteration), \<open>inputMounts\<close> and \<open>inputsToStream\<close>;
  \<open>released\<close> collects the volumes on which \<open>Release\<close> is called.
\<close>

fun chooseLoop :: "task_env \<Rightarrow> SourceRepository \<Rightarrow> string \<Rightarrow> TaskInputConfig list \<Rightarrow> Worker list
    \<Rightarrow> Worker option \<Rightarrow> VolumeMount list \<Rightarrow> inputPair list \<Rightarrow> Volume list
    \<Rightarrow> (error + (Worker option \<times> VolumeMount list \<times> inputPair list)) \<times> Volume list" where
  "chooseLoop env r root inputs [] chosenWorker inputMounts inputsToStream released =
     (Inr (chosenWorker, inputMounts, inputsToStream), released)"
| "chooseLoop env r root inputs (w # ws) chosenWorker inputMounts inputsToStream released =
     (case inputsOn env r root inputs w of
        Inl err \<Rightarrow> (Inl err, released)
      | Inr (mounts, toStream) \<Rightarrow>
          if length mounts \<ge> length inputMounts
          then chooseLoop env r root inputs ws (Some w) mounts toStream
                 (released @ map MountVolume inputMounts)
          else chooseLoop env r root inputs ws chosenWorker inputMounts inputsToStream
                 (released @ map MountVolume mounts))"

definition chooseWorkerWithMostVolumes :: "task_env \<Rightarrow> SourceRepository \<Rightarrow> string
    \<Rightarrow> Worker list \<Rightarrow> TaskInputConfig list
    \<Rightarrow> (error + (Worker option \<times> VolumeMount list \<times> inputPair list)) \<times> Volume list" where
  "chooseWorkerWithMostVolumes env r root compatible inputs =
     chooseLoop env r root inputs compatible None [] [] []"

section \<open>The task step: registering outputs\<close>

text \<open>The inner loop of \<open>TaskStep.registerSource\<close>, over the container's volume mounts.\<close>

fun registerMounted :: "string \<Rightarrow> Container \<Rightarrow> TaskOutputConfig \<Rightarrow> string \<Rightarrow> VolumeMount list
    \<Rightarrow> SourceRepository \<Rightarrow> SourceRepository" where
  "registerMounted root c output outputPath [] r = r"
| "registerMounted root c output outputPath (mount # mounts) r =
     (if MountPath mount = outputPath
      then registerMounted root c output outputPath mounts
             (RegisterSource (OutputName output)
                (ContainerSource root c output (MountVolume mount)) r)
      else registerMounted root c output outputPath mounts r)"

text \<open>The outer loop, over the declared outputs.\<close>

fun registerOutputs :: "task_env \<Rightarrow> string \<Rightarrow> Container \<Rightarrow> VolumeMount list
    \<Rightarrow> TaskOutputConfig list \<Rightarrow> SourceRepository \<Rightarrow> SourceRepository" where
  "registerOutputs env root c volumeMounts [] r = r"
| "registerOutputs env root c volumeMounts (output # outputs) r =
     (if length volumeMounts > 0
      then registerOutputs env root c volumeMounts outputs
             (registerMounted root c output (artifactsPath env output root) volumeMounts r)
      else registerOutputs env root c volumeMounts outputs
             (RegisterSource (OutputName output) (ContainerSource root c output '''') r))"

text \<open>
  \<open>TaskStep.registerSource\<close>. With declared outputs it calls \<open>VolumeMounts\<close> on
  \<open>step.container\<close>, which panics when that field is nil.
\<close>

definition registerSource :: "task_env \<Rightarrow> TaskConfig \<Rightarrow> TaskStep \<Rightarrow> error + TaskStep" where
  "registerSource env config step =
     (if length (Outputs config) = 0
      then Inr (step\<lparr>repo := RegisterSource (sourceName step)
                               (TaskStepSource (sourceName step)) (repo step)\<rparr>)
      else
        (case container step of
           None \<Rightarrow> Inl NilDereference
         | Some c \<Rightarrow>
             Inr (step\<lparr>repo := registerOutputs env (artifactsRoot step) c (VolumeMounts env c)
                                  (Outputs config) (repo step)\<rparr>)))"

text \<open>\<open>TaskStep.Result\<close>: the type switch on the pointer passed in.\<close>

datatype result_pointer = SuccessPointer | ExitStatusPointer | OtherPointer

datatype result_value = Success bool | ExitStatus go_int

definition Result :: "TaskStep \<Rightarrow> result_pointer \<Rightarrow> result_value option" where
  "Result step x =
     (case x of
        SuccessPointer \<Rightarrow> Some (Success (exitStatus step = 0))
      | ExitStatusPointer \<Rightarrow> Some (ExitStatus (exitStatus step))
      | OtherPointer \<Rightarrow> None)"

section \<open>The task step: creating the container\<close>

text \<open>
  The loop of \<open>createContainer\<close> that creates one volume per declared output on the chosen
  worker; it is left at the first output when the worker has no volume manager.
\<close>

fun outputMountsLoop :: "task_env \<Rightarrow> string \<Rightarrow> Worker \<Rightarrow> TaskOutputConfig list
    \<Rightarrow> VolumeMount list \<Rightarrow> TaskStep \<Rightarrow> (error + VolumeMount list) \<times> TaskStep" where
  "outputMountsLoop env root chosenWorker [] outputMounts step = (Inr outputMounts, step)"
| "outputMountsLoop env root chosenWorker (output # outputs) outputMounts step =
     (if \<not> VolumeManager env chosenWorker then (Inr outputMounts, step)
      else
        (case CreateVolume env chosenWorker (length outputMounts) of
           Inl volErr \<Rightarrow> (Inl (Foreign volErr), called [CreateVolumeCall chosenWorker] step)
         | Inr ourVolume \<Rightarrow>
             outputMountsLoop env root chosenWorker outputs
               (outputMounts @ [\<lparr>MountVolume = ourVolume,
                                  MountPath = artifactsPath env output root\<rparr>])
               (called [CreateVolumeCall chosenWorker] step)))"

text \<open>
  \<open>TaskStep.getContainerImage\<close>. \<open>Inr version\<close> stands for the resource of the get
  session, opened for that version. The deferred release of the checking resource runs
  on every return after the check session was opened.
\<close>

definition getContainerImage :: "task_env \<Rightarrow> Worker \<Rightarrow> TaskConfig \<Rightarrow> TaskStep
    \<Rightarrow> (error + string) \<times> TaskStep" where
  "getContainerImage env w config step =
     (case ImageResource config of
        None \<Rightarrow> (Inl NilDereference, step)
      | Some imageResource \<Rightarrow>
          (case TrackerInit env w of
             Some err \<Rightarrow> (Inl (Foreign err), step)
           | None \<Rightarrow>
               (case Check env w of
                  Inl err \<Rightarrow> (Inl (Foreign err), called [CheckCall w, ResourceReleaseCall w] step)
                | Inr versions \<Rightarrow>
                    (case versions of
                       [] \<Rightarrow>
                         (Inl ErrImageUnavailable,
                          called [CheckCall w, ResourceReleaseCall w] step)
                     | version # older \<Rightarrow>
                         (case InitWithCache env w version of
                            Some err \<Rightarrow>
                              (Inl (Foreign err),
                               called [CheckCall w, ResourceReleaseCall w] step)
                          | None \<Rightarrow>
                              (case IsInitialized env w version of
                                 Inl err \<Rightarrow>
                                   (Inl (Foreign err),
                                    called [CheckCall w, ResourceReleaseCall w] step)
                               | Inr isInitialized \<Rightarrow>
                                   if \<not> isInitialized
                                   then
                                     (case GetRun env w version of
                                        Some err \<Rightarrow>
                                          (Inl (Foreign err),
                                           called [CheckCall w, GetCall w version,
                                                   ResourceReleaseCall w] step)
                                      | None \<Rightarrow>
                                          (Inr version,
                                           called [CheckCall w, GetCall w version,
                                                   CacheInitializeCall w version,
                                                   ResourceReleaseCall w] step))
                                   else
                                     (Inr version,
                                      called [CheckCall w, ResourceReleaseCall w] step)))))))"

text \<open>
  The part of \<open>createContainer\<close> between the choice of the worker and the call of
  \<open>CreateContainer\<close>: the output volumes, the image, and the container spec. The boolean
  tells whether an image resource was fetched.
\<close>

definition containerSpecFor :: "task_env \<Rightarrow> Worker \<Rightarrow> TaskConfig \<Rightarrow> VolumeMount list \<Rightarrow> TaskStep
    \<Rightarrow> (error + (TaskContainerSpec \<times> bool)) \<times> TaskStep" where
  "containerSpecFor env chosenWorker config inputMounts step =
     (case outputMountsLoop env (artifactsRoot step) chosenWorker (Outputs config) [] step of
        (Inl err, step1) \<Rightarrow> (Inl err, step1)
      | (Inr outputMounts, step1) \<Rightarrow>
          let containerSpec =
                \<lparr>SpecPlatform = TaskPlatform config, SpecTags = tags step,
                 SpecPrivileged = privileged step, SpecInputs = inputMounts,
                 SpecOutputs = outputMounts, SpecImage = '''', SpecImageVolume = None\<rparr>
          in if ImageResource config \<noteq> None
             then
               (case getContainerImage env chosenWorker config step1 of
                  (Inl err, step2) \<Rightarrow> (Inl err, step2)
                | (Inr imageResource, step2) \<Rightarrow>
                    (case CacheVolume env chosenWorker of
                       Inl err \<Rightarrow> (Inl (Foreign err), step2)
                     | Inr None \<Rightarrow>
                         (Inl (ErrImageGetDidNotProduceVolume (sourceName step)), step2)
                     | Inr (Some imageVolume) \<Rightarrow>
                         (Inr (containerSpec\<lparr>SpecImageVolume := Some imageVolume\<rparr>, True),
                          step2)))
             else (Inr (containerSpec\<lparr>SpecImage := Image config\<rparr>, False), step1))"

lemma chooseLoop_chosen:
  "chooseLoop env r root inputs ws chosen inputMounts toStream released
     = (Inr (Some w, mounts', toStream'), released')
   \<Longrightarrow> w \<in> set ws \<or> chosen = Some w"
proof (induction ws arbitrary: chosen inputMounts toStream released)
  case Nil
  then show ?case by simp
next
  case (Cons a ws)
  then show ?case
    by (fastforce split: sum.splits prod.splits if_splits)
qed

lemma chosen_filter_shorter:
  assumes "chooseWorkerWithMostVolumes env r root ws inputs = (Inr (Some w, rest), released)"
  shows "length (filter (\<lambda>x. x \<noteq> w) ws) < length ws"
proof -
  have "w \<in> set ws"
    using assms
      chooseLoop_chosen [of env r root inputs ws None "[]" "[]" "[]" w "fst rest" "snd rest" released]
    by (simp add: chooseWorkerWithMostVolumes_def)
  then show ?thesis
    by (induction ws) (auto simp: less_Suc_eq_le)
qed

text \<open>
  \<open>TaskStep.createContainer\<close>. With no worker to choose from, \<open>chosenWorker\<close> stays nil and
  its first use panics. When \<open>CreateContainer\<close> fails, the function calls itself on the
  compatible workers other than the chosen one.
\<close>

function createContainer :: "task_env \<Rightarrow> Worker list \<Rightarrow> TaskConfig \<Rightarrow> TaskStep
    \<Rightarrow> (error + (Container \<times> inputPair list)) \<times> TaskStep" where
  "createContainer env compatible config step =
     (case chooseWorkerWithMostVolumes env (repo step) (artifactsRoot step) compatible
             (Inputs config) of
        (Inl err, released) \<Rightarrow> (Inl err, called (map VolumeReleaseCall released) step)
      | (Inr (None, inputMounts, inputsToStream), released) \<Rightarrow>
          (Inl NilDereference, called (map VolumeReleaseCall released) step)
      | (Inr (Some chosenWorker, inputMounts, inputsToStream), released) \<Rightarrow>
          (case containerSpecFor env chosenWorker config inputMounts
                  (called (map VolumeReleaseCall released) step) of
             (Inl err, step1) \<Rightarrow> (Inl err, step1)
           | (Inr (containerSpec, hasImage), step1) \<Rightarrow>
               (case CreateContainer env chosenWorker containerSpec of
                  Inl err \<Rightarrow>
                    (let newCompatibleWorkers = filter (\<lambda>w. w \<noteq> chosenWorker) compatible
                     in if length newCompatibleWorkers = 0
                        then (Inl (ErrorsNew
                                ''Failed to create container on all compatible workers''),
                              called [CreateContainerCall chosenWorker] step1)
                        else createContainer env newCompatibleWorkers config
                               (called [CreateContainerCall chosenWorker] step1))
                | Inr c \<Rightarrow>
                    (Inr (c, inputsToStream),
                     called ([CreateContainerCall chosenWorker]
                             @ (if hasImage then [ResourceReleaseCall chosenWorker] else [])
                             @ map (VolumeReleaseCall \<circ> MountVolume) inputMounts
                             @ map (VolumeReleaseCall \<circ> MountVolume) (SpecOutputs containerSpec))
                       step1))))"
  by pat_completeness auto
termination
  by (relation "measure (\<lambda>(env, compatible, config, step). length compatible)")
     (auto intro: chosen_filter_shorter [OF sym])

declare createContainer.simps [simp del]

section \<open>The task step: running\<close>

text \<open>
  \<open>createContainerDir\<close> streams an empty tar archive into the directory. (Closing the
  writer of an in-memory archive does not fail.)
\<close>

definition createContainerDir :: "task_env \<Rightarrow> Container \<Rightarrow> string \<Rightarrow> TaskStep
    \<Rightarrow> (error + unit) \<times> TaskStep" where
  "createContainerDir env c dir step =
     (case StreamIn env c dir of
        Some err \<Rightarrow> (Inl (Foreign err), called [StreamInCall c dir] step)
      | None \<Rightarrow> (Inr (), called [StreamInCall c dir] step))"

definition ensureBuildDirExists :: "task_env \<Rightarrow> Container \<Rightarrow> TaskStep
    \<Rightarrow> (error + unit) \<times> TaskStep" where
  "ensureBuildDirExists env c step = createContainerDir env c (artifactsRoot step) step"

text \<open>
  \<open>streamInputs\<close> and \<open>setupOutputs\<close> are called where \<open>step.container\<close> has just been
  assigned the created container \<open>c\<close>.
\<close>

fun streamInputs :: "task_env \<Rightarrow> Container \<Rightarrow> inputPair list \<Rightarrow> TaskStep
    \<Rightarrow> (error + unit) \<times> TaskStep" where
  "streamInputs env c [] step = (Inr (), step)"
| "streamInputs env c ((input, source) # inputPairs) step =
     (case StreamTo env source c input of
        Some err \<Rightarrow> (Inl (Foreign err), called [StreamToCall source c (InputName input)] step)
      | None \<Rightarrow>
          streamInputs env c inputPairs (called [StreamToCall source c (InputName input)] step))"

fun setupOutputs :: "task_env \<Rightarrow> Container \<Rightarrow> TaskOutputConfig list \<Rightarrow> TaskStep
    \<Rightarrow> (error + unit) \<times> TaskStep" where
  "setupOutputs env c [] step = (Inr (), step)"
| "setupOutputs env c (output # outputs) step =
     (case createContainerDir env c (artifactsPath env output (artifactsRoot step)) step of
        (Inl err, step1) \<Rightarrow> (Inl err, step1)
      | (Inr u, step1) \<Rightarrow> setupOutputs env c outputs step1)"

definition envForParams :: "(string \<times> string) list \<Rightarrow> string list" where
  "envForParams params = map (\<lambda>(k, v). k @ ''='' @ v) params"

text \<open>
  \<open>container.Property\<close> reads the properties stored on the container and fails for a
  property the container does not carry; \<open>container.SetProperty\<close> stores a property,
  unless the runtime answers with an error.
\<close>

definition Property :: "task_env \<Rightarrow> TaskStep \<Rightarrow> Container \<Rightarrow> string \<Rightarrow> string + string" where
  "Property env step c name =
     (case properties step c name of
        None \<Rightarrow> Inl (propertyNotFound env)
      | Some v \<Rightarrow> Inr v)"

definition setProperty :: "task_env \<Rightarrow> Container \<Rightarrow> string \<Rightarrow> string \<Rightarrow> TaskStep
    \<Rightarrow> (error + unit) \<times> TaskStep" where
  "setProperty env c name v step =
     (case SetProperty env c name v of
        Some err \<Rightarrow> (Inl (Foreign err), called [SetPropertyCall c name v] step)
      | None \<Rightarrow>
          (Inr (),
           called [SetPropertyCall c name v]
             (step\<lparr>properties := (properties step)(c := (properties step c)(name \<mapsto> v))\<rparr>)))"

text \<open>
  \<open>Run\<close> in three parts. (The environment variables that \<open>Run\<close> stores in the step's
  metadata, which is handed to \<open>CreateContainer\<close> unread, and the log lines are left
  out. When \<open>Attach\<close> or \<open>Run\<close> of the container fails, the process field receives the nil
  process returned with the error.) What precedes \<open>close(ready)\<close> either returns (with an error, or
  with nil after recovering the result of a finished process) or goes on to wait for the
  process.
\<close>

datatype progress = ReturnNil | WaitForProcess

text \<open>The branch of \<open>Run\<close> taken when the container \<open>c\<close> was found without error.\<close>

definition Run_found :: "task_env \<Rightarrow> TaskConfig \<Rightarrow> Container \<Rightarrow> TaskStep
    \<Rightarrow> (error + progress) \<times> TaskStep" where
  "Run_found env config c step =
     (case Property env step c taskExitStatusPropertyName of
        Inr exitStatusProp \<Rightarrow>
          (case Sscanf_d exitStatusProp of
             Inl err \<Rightarrow> (Inl err, step)
           | Inr status \<Rightarrow>
               (case registerSource env config (step\<lparr>exitStatus := status\<rparr>) of
                  Inl err \<Rightarrow> (Inl err, step\<lparr>exitStatus := status\<rparr>)
                | Inr step1 \<Rightarrow> (Inr ReturnNil, step1)))
      | Inl noStatus \<Rightarrow>
          (case Property env step c taskProcessPropertyName of
             Inl err \<Rightarrow> (Inl (Foreign err), step)
           | Inr processID \<Rightarrow>
               (case Attach env c processID of
                  Some err \<Rightarrow>
                    (Inl (Foreign err),
                     called [AttachCall c processID] (step\<lparr>process := None\<rparr>))
                | None \<Rightarrow>
                    (Inr WaitForProcess,
                     called [AttachCall c processID] (step\<lparr>process := Some processID\<rparr>)))))"

text \<open>The other branch: no container was found, or the lookup failed; a new session.\<close>

definition workerSpecFor :: "TaskConfig \<Rightarrow> TaskStep \<Rightarrow> WorkerSpec" where
  "workerSpecFor config step =
     \<lparr>Platform = TaskPlatform config, Tags = tags step,
      ResourceType = (case ImageResource config of
                        None \<Rightarrow> '''' | Some imageResource \<Rightarrow> ImageType imageResource)\<rparr>"

definition Run_new :: "task_env \<Rightarrow> TaskConfig \<Rightarrow> TaskStep \<Rightarrow> (error + progress) \<times> TaskStep" where
  "Run_new env config step =
     (let workerSpec = workerSpecFor config step
      in case workerPoolAllSatisfying env workerSpec of
           Inl err \<Rightarrow> (Inl err, called [Initializing] step)
         | Inr compatible \<Rightarrow>
             (case createContainer env compatible config (called [Initializing] step) of
                (Inl err, step1) \<Rightarrow> (Inl err, step1\<lparr>container := None\<rparr>)
              | (Inr (c, inputsToStream), step1) \<Rightarrow>
                  (case ensureBuildDirExists env c (step1\<lparr>container := Some c\<rparr>) of
                     (Inl err, step2) \<Rightarrow> (Inl err, step2)
                   | (Inr u, step2) \<Rightarrow>
                       (case streamInputs env c inputsToStream step2 of
                          (Inl err, step3) \<Rightarrow> (Inl err, step3)
                        | (Inr u, step3) \<Rightarrow>
                            (case setupOutputs env c (Outputs config) step3 of
                               (Inl err, step4) \<Rightarrow> (Inl err, step4)
                             | (Inr u, step4) \<Rightarrow>
                                 (let processSpec =
                                        \<lparr>ProcPath = RunPath config, ProcArgs = RunArgs config,
                                         ProcEnv = envForParams (Params config),
                                         ProcDir = artifactsRoot step, ProcUser = ''root''\<rparr>
                                  in case ContainerRun env c processSpec of
                                       Inl err \<Rightarrow>
                                         (Inl (Foreign err),
                                          called [Started, RunCall c processSpec]
                                            (step4\<lparr>process := None\<rparr>))
                                     | Inr processID \<Rightarrow>
                                         (case setProperty env c taskProcessPropertyName processID
                                                 (called [Started, RunCall c processSpec]
                                                    (step4\<lparr>process := Some processID\<rparr>)) of
                                            (Inl err, step5) \<Rightarrow> (Inl err, step5)
                                          | (Inr u, step5) \<Rightarrow> (Inr WaitForProcess, step5))))))))"

text \<open>The \<open>select\<close> statement at the end of \<open>Run\<close>.\<close>

definition Run_select :: "task_env \<Rightarrow> TaskConfig \<Rightarrow> TaskStep \<Rightarrow> (error + unit) \<times> TaskStep" where
  "Run_select env config step =
     (case Wait env of
        Signalled \<Rightarrow>
          (case registerSource env config step of
             Inl err \<Rightarrow> (Inl err, step)
           | Inr step1 \<Rightarrow>
               (case container step1 of
                  None \<Rightarrow> (Inl NilDereference, step1)
                | Some c \<Rightarrow> (Inl ErrInterrupted, called [StopCall c False] step1)))
      | Exited status \<Rightarrow>
          (case registerSource env config step of
             Inl err \<Rightarrow> (Inl err, step)
           | Inr step1 \<Rightarrow>
               (case container step1 of
                  None \<Rightarrow> (Inl NilDereference, step1\<lparr>exitStatus := status\<rparr>)
                | Some c \<Rightarrow>
                    (case setProperty env c taskExitStatusPropertyName (Sprintf_d status)
                            (step1\<lparr>exitStatus := status\<rparr>) of
                       (Inl err, step2) \<Rightarrow> (Inl err, step2)
                     | (Inr u, step2) \<Rightarrow> (Inr (), called [Finished status] step2))))
      | WaitFailed err \<Rightarrow> (Inl (Foreign err), step))"

text \<open>\<open>TaskStep.Run\<close>.\<close>

definition Run_prepare :: "task_env \<Rightarrow> TaskConfig \<Rightarrow> TaskStep \<Rightarrow> (error + progress) \<times> TaskStep" where
  "Run_prepare env config step =
     (case FindContainerForIdentifier env of
        Inr (Some c) \<Rightarrow> Run_found env config c (step\<lparr>container := Some c\<rparr>)
      | Inr None \<Rightarrow> Run_new env config (step\<lparr>container := None\<rparr>)
      | Inl err \<Rightarrow> Run_new env config (step\<lparr>container := None\<rparr>))"

definition Run :: "task_env \<Rightarrow> TaskStep \<Rightarrow> (error + unit) \<times> TaskStep" where
  "Run env step =
     (case FetchConfig env (repo step) of
        Inl err \<Rightarrow> (Inl (Foreign err), step)
      | Inr config \<Rightarrow>
          (case Run_prepare env config step of
             (Inl err, step1) \<Rightarrow> (Inl err, step1)
           | (Inr ReturnNil, step1) \<Rightarrow> (Inr (), step1)
           | (Inr WaitForProcess, step1) \<Rightarrow> Run_select env config (called [CloseReady] step1)))"

section \<open>Notions used to state the properties\<close>

text \<open>
  An input has a pre-existing volume on a worker when its source is registered and
  \<open>VolumeOn\<close> finds a volume there; \<open>volumeCount\<close> counts the declared inputs that have.
\<close>

definition hasVolumeOn :: "task_env \<Rightarrow> SourceRepository \<Rightarrow> Worker \<Rightarrow> TaskInputConfig \<Rightarrow> bool" where
  "hasVolumeOn env r w input =
     (case SourceFor r (InputName input) of
        None \<Rightarrow> False
      | Some source \<Rightarrow>
          (case VolumeOn env source w of
             Inr (Some volume) \<Rightarrow> True
           | Inr None \<Rightarrow> False
           | Inl err \<Rightarrow> False))"

definition volumeCount :: "task_env \<Rightarrow> SourceRepository \<Rightarrow> TaskInputConfig list \<Rightarrow> Worker \<Rightarrow> nat" where
  "volumeCount env r inputs w = length (filter (hasVolumeOn env r w) inputs)"

text \<open>The names of the declared inputs for which the repository holds no source.\<close>

definition missingNames :: "SourceRepository \<Rightarrow> TaskInputConfig list \<Rightarrow> string list" where
  "missingNames r inputs = filter (\<lambda>name. SourceFor r name = None) (map InputName inputs)"

text \<open>A volume lookup fails for a registered input on the worker.\<close>

definition lookupFails :: "task_env \<Rightarrow> SourceRepository \<Rightarrow> Worker \<Rightarrow> TaskInputConfig \<Rightarrow> bool" where
  "lookupFails env r w input =
     (case SourceFor r (InputName input) of
        None \<Rightarrow> False
      | Some source \<Rightarrow> (case VolumeOn env source w of Inl err \<Rightarrow> True | Inr found \<Rightarrow> False))"

text \<open>
  The sources that registering the outputs of a task adds to a repository, as a map of
  their own.
\<close>

definition outputSources :: "task_env \<Rightarrow> TaskConfig \<Rightarrow> string \<Rightarrow> string \<Rightarrow> Container
    \<Rightarrow> SourceRepository" where
  "outputSources env config name root c =
     (if length (Outputs config) = 0 then [name \<mapsto> TaskStepSource name]
      else registerOutputs env root c (VolumeMounts env c) (Outputs config) Map.empty)"

text \<open>The workers on which \<open>CreateContainer\<close> was called, and the processes started.\<close>

fun isCreateContainer :: "call \<Rightarrow> bool" where
  "isCreateContainer (CreateContainerCall w) = True"
| "isCreateContainer other = False"

fun isProcessStart :: "call \<Rightarrow> bool" where
  "isProcessStart (RunCall c processSpec) = True"
| "isProcessStart other = False"

section \<open>An example build\<close>

text \<open>
  A task with inputs \<open>A\<close> and \<open>B\<close> and one output, and its workers: \<open>w1\<close> holds a
  volume of \<open>A\<close>, \<open>w2\<close> and \<open>w2b\<close> hold volumes of \<open>A\<close> and \<open>B\<close>, \<open>w3\<close> (like any
  other worker) holds none. On the worker \<open>down\<close> every volume lookup fails.
\<close>

definition exampleInputs :: "TaskInputConfig list" where
  "exampleInputs = [\<lparr>InputName = ''A'', InputPath = ''''\<rparr>, \<lparr>InputName = ''B'', InputPath = ''''\<rparr>]"

definition exampleOutput :: TaskOutputConfig where
  "exampleOutput = \<lparr>OutputName = ''out'', OutputPath = ''''\<rparr>"

definition exampleConfig :: TaskConfig where
  "exampleConfig =
     \<lparr>TaskPlatform = ''linux'', Image = ''busybox'', ImageResource = None,
      Inputs = exampleInputs, Outputs = [exampleOutput], Params = [(''K'', ''V'')],
      RunPath = ''make'', RunArgs = []\<rparr>"

definition exampleRepo :: SourceRepository where
  "exampleRepo = [''A'' \<mapsto> OtherSource ''A'', ''B'' \<mapsto> OtherSource ''B'']"

definition exampleVolumeOn :: "string \<Rightarrow> Worker \<Rightarrow> string + Volume option" where
  "exampleVolumeOn name w =
     (if w = ''down'' then Inl ''volume lookup failed''
      else if (w = ''w1'' \<and> name = ''A'')
              \<or> ((w = ''w2'' \<or> w = ''w2b'') \<and> (name = ''A'' \<or> name = ''B''))
        then Inr (Some (name @ ''-on-'' @ w))
      else Inr None)"

definition exampleEnv :: task_env where
  "exampleEnv =
     \<lparr>pathJoin = (\<lambda>a b. a @ ''/'' @ b),
      propertyNotFound = ''property does not exist'',
      FetchConfig = (\<lambda>r. Inr exampleConfig),
      FindContainerForIdentifier = Inr None,
      workerPoolAllSatisfying = (\<lambda>spec. Inr [''w1'', ''w2'', ''w3'']),
      VolumeManager = (\<lambda>w. True),
      LookupVolume = (\<lambda>w handle. Inr None),
      OtherVolumeOn = exampleVolumeOn,
      CreateVolume = (\<lambda>w n. Inr (''output-volume'')),
      TrackerInit = (\<lambda>w. None),
      Check = (\<lambda>w. Inr []),
      InitWithCache = (\<lambda>w version. None),
      IsInitialized = (\<lambda>w version. Inr True),
      GetRun = (\<lambda>w version. None),
      CacheVolume = (\<lambda>w. Inr (Some ''image-volume'')),
      CreateContainer = (\<lambda>w spec. Inr (''task-container'')),
      VolumeMounts = (\<lambda>c. [\<lparr>MountVolume = ''output-volume'', MountPath = ''/tmp/build/x/out/''\<rparr>]),
      StreamIn = (\<lambda>c dir. None),
      StreamTo = (\<lambda>source c input. None),
      ContainerRun = (\<lambda>c processSpec. Inr ''17''),
      Attach = (\<lambda>c processID. None),
      SetProperty = (\<lambda>c name v. None),
      Wait = Exited 0\<rparr>"

definition exampleStep :: TaskStep where
  "exampleStep =
     \<lparr>sourceName = ''build'', artifactsRoot = ''/tmp/build/x'', privileged = False,
      tags = [], repo = exampleRepo, container = None, process = None, exitStatus = 0,
      properties = (\<lambda>c. Map.empty), calls = []\<rparr>"

text \<open>
  The state in which the example step waits for its process, in a new session: \<open>w2\<close>
  was chosen, the container created and prepared, the process started.
\<close>

definition examplePrepared :: TaskStep where
  "examplePrepared =
     exampleStep
       \<lparr>container := Some ''task-container'',
        process := Some ''17'',
        properties := (\<lambda>c. Map.empty)
          (''task-container'' := [''concourse:task-process'' \<mapsto> ''17'']),
        calls :=
          [Initializing, VolumeReleaseCall ''A-on-w1'', CreateVolumeCall ''w2'',
           CreateContainerCall ''w2'', VolumeReleaseCall ''A-on-w2'',
           VolumeReleaseCall ''B-on-w2'', VolumeReleaseCall ''output-volume'',
           StreamInCall ''task-container'' ''/tmp/build/x'',
           StreamInCall ''task-container'' ''/tmp/build/x/out/'', Started,
           RunCall ''task-container''
             \<lparr>ProcPath = ''make'', ProcArgs = [], ProcEnv = [''K=V''],
              ProcDir = ''/tmp/build/x'', ProcUser = ''root''\<rparr>,
           SetPropertyCall ''task-container'' ''concourse:task-process'' ''17'']\<rparr>"

text \<open>
  The example step as a later run finds it: a new step, with the container properties
  that an earlier run left, and an environment in which the container is found.
\<close>

definition exampleFound :: "task_env \<Rightarrow> task_env" where
  "exampleFound env = env\<lparr>FindContainerForIdentifier := Inr (Some ''task-container'')\<rparr>"

definition exampleRestarted :: "(Container \<Rightarrow> string \<rightharpoonup> string) \<Rightarrow> TaskStep" where
  "exampleRestarted stored = exampleStep\<lparr>properties := stored\<rparr>"

text \<open>The state in which the example step returns when its process has exited with 137.\<close>

definition exampleFinished :: TaskStep where
  "exampleFinished =
     examplePrepared
       \<lparr>repo := exampleRepo(''out'' \<mapsto>
          ContainerSource ''/tmp/build/x'' ''task-container'' exampleOutput ''output-volume''),
        exitStatus := 137,
        properties := (\<lambda>c. Map.empty)
          (''task-container'' := [''concourse:task-process'' \<mapsto> ''17'',
                                  ''concourse:exit-status'' \<mapsto> ''137'']),
        calls := calls examplePrepared
          @ [CloseReady, SetPropertyCall ''task-container'' ''concourse:exit-status'' ''137'',
             Finished 137]\<rparr>"

text \<open>The example task with an image resource in place of the image name.\<close>

definition exampleImageConfig :: TaskConfig where
  "exampleImageConfig =
     exampleConfig\<lparr>ImageResource := Some \<lparr>ImageType = ''docker-image'', ImageSource = ''busybox''\<rparr>\<rparr>"

definition exampleImageEnv :: task_env where
  "exampleImageEnv = exampleEnv\<lparr>FetchConfig := (\<lambda>r. Inr exampleImageConfig)\<rparr>"

text \<open>
  Volume mounts as a runtime reports them that cleans the mount paths: the output volume
  is there, at the path of the output without the final slash.
\<close>

definition exampleCleanedMounts :: "Container \<Rightarrow> VolumeMount list" where
  "exampleCleanedMounts c =
     [\<lparr>MountVolume = ''A-on-w2'', MountPath = ''/tmp/build/x/A''\<rparr>,
      \<lparr>MountVolume = ''B-on-w2'', MountPath = ''/tmp/build/x/B''\<rparr>,
      \<lparr>MountVolume = ''output-volume'', MountPath = ''/tmp/build/x/out''\<rparr>]"

section \<open>Properties of the worker pool\<close>

lemma compatibleWorkers_eq:
  "compatibleWorkers env spec ws team general =
     (team @ satisfyingOwned env spec True ws, general @ satisfyingOwned env spec False ws)"
proof (induction ws arbitrary: team general)
  case Nil
  show ?case by (simp add: satisfyingOwned_def)
next
  case (Cons w ws)
  show ?case
    by (cases "Satisfying env w spec")
       (simp_all add: Cons.IH satisfyingOwned_def)
qed

lemma set_satisfyingOwned:
  "set (satisfyingOwned env spec owned ws) =
     {sw. \<exists>w \<in> set ws. IsOwnedByTeam env w = owned \<and> Satisfying env w spec = Inr sw}"
  by (induction ws)
     (auto simp: satisfyingOwned_def split: sum.splits if_splits)

text \<open>
  C3. \<open>AllSatisfying\<close> applies the tenant-preference rule. For every list of running
  workers: an empty list gives the error \<open>no workers\<close>; otherwise, if some team-owned
  worker satisfies the spec the result is exactly the satisfying team-owned workers (in
  pool order); otherwise, if some general worker satisfies it, exactly the satisfying
  general workers; otherwise the call fails with the no-compatible-workers error, which
  carries the spec and the full list of running workers.
\<close>

theorem AllSatisfying_tenant_preference:
  assumes "RunningWorkers env = Inr workers"
  shows "AllSatisfying env spec =
     (if workers = [] then Inl ErrNoWorkers
      else if satisfyingOwned env spec True workers \<noteq> []
        then Inr (satisfyingOwned env spec True workers)
      else if satisfyingOwned env spec False workers \<noteq> []
        then Inr (satisfyingOwned env spec False workers)
      else Inl (NoCompatibleWorkersError spec workers))"
  using assms by (simp add: AllSatisfying_def compatibleWorkers_eq)

theorem AllSatisfying_tenant_preference_witness:
  "AllSatisfying (examplePool [''g1'', ''t1'', ''t2'', ''g2''] [''g1'', ''t2'', ''g2''] [''t1'', ''t2'']
       exampleCreate) exampleSpec = Inr [''t2'']
   \<and> AllSatisfying (examplePool [''g1'', ''t1'', ''g2''] [''g1'', ''g2''] [''t1''] exampleCreate)
       exampleSpec = Inr [''g1'', ''g2'']
   \<and> AllSatisfying (examplePool [''g1'', ''t1''] [] [''t1''] exampleCreate) exampleSpec
       = Inl (NoCompatibleWorkersError exampleSpec [''g1'', ''t1''])
   \<and> AllSatisfying (examplePool [] [] [] exampleCreate) exampleSpec = Inl ErrNoWorkers"
  using
    AllSatisfying_tenant_preference
      [of "examplePool [''g1'', ''t1'', ''t2'', ''g2''] [''g1'', ''t2'', ''g2''] [''t1'', ''t2'']
            exampleCreate" "[''g1'', ''t1'', ''t2'', ''g2'']" exampleSpec]
    AllSatisfying_tenant_preference
      [of "examplePool [''g1'', ''t1'', ''g2''] [''g1'', ''g2''] [''t1''] exampleCreate"
          "[''g1'', ''t1'', ''g2'']" exampleSpec]
    AllSatisfying_tenant_preference
      [of "examplePool [''g1'', ''t1''] [] [''t1''] exampleCreate" "[''g1'', ''t1'']" exampleSpec]
    AllSatisfying_tenant_preference
      [of "examplePool [] [] [] exampleCreate" "[]" exampleSpec]
  by (simp add: examplePool_def satisfyingOwned_def)

lemma findWorker_skip_prefix:
  assumes "\<forall>p \<in> set pre. skipped env p"
  shows "findWorkerNotRunningVTXTask env (pre @ ws) =
     (case findWorkerNotRunningVTXTask env ws of (r, tried) \<Rightarrow> (r, pre @ tried))"
  using assms
proof (induction pre)
  case Nil
  show ?case by simp
next
  case (Cons p pre)
  then show ?case
    by (cases "FindOrCreateBuildContainer env p")
       (auto simp: skipped_def split: prod.splits)
qed

text \<open>
  C4. The placement fallback policy of the pool. Container creation is attempted on the
  candidate workers in list order. A worker whose creation error mentions the maximum
  number of active containers is skipped; the first worker that answers otherwise decides
  the call: any other error is returned at once, a container is returned at once, and no
  later worker is tried. When every candidate has been skipped the call fails with
  \<open>failed to create container on all compatible workers\<close>, having tried them all.
\<close>

theorem findWorkerNotRunningVTXTask_policy:
  "((\<forall>p \<in> set ws. skipped env p) \<longrightarrow>
      findWorkerNotRunningVTXTask env ws =
        (Inl (ErrorsNew ''failed to create container on all compatible workers''), ws))
   \<and> ((\<forall>p \<in> set pre. skipped env p) \<and> FindOrCreateBuildContainer env w = Inl err
        \<and> \<not> strings_Contains err maxContainersMessage \<longrightarrow>
      findWorkerNotRunningVTXTask env (pre @ w # post) = (Inl (Foreign err), pre @ [w]))
   \<and> ((\<forall>p \<in> set pre. skipped env p) \<and> FindOrCreateBuildContainer env w = Inr c \<longrightarrow>
      findWorkerNotRunningVTXTask env (pre @ w # post) = (Inr c, pre @ [w]))"
proof (intro conjI impI)
  assume "\<forall>p \<in> set ws. skipped env p"
  then show "findWorkerNotRunningVTXTask env ws =
        (Inl (ErrorsNew ''failed to create container on all compatible workers''), ws)"
    using findWorker_skip_prefix [of ws env "[]"] by simp
next
  assume "(\<forall>p \<in> set pre. skipped env p) \<and> FindOrCreateBuildContainer env w = Inl err
        \<and> \<not> strings_Contains err maxContainersMessage"
  then show "findWorkerNotRunningVTXTask env (pre @ w # post) = (Inl (Foreign err), pre @ [w])"
    using findWorker_skip_prefix [of pre env "w # post"] by simp
next
  assume "(\<forall>p \<in> set pre. skipped env p) \<and> FindOrCreateBuildContainer env w = Inr c"
  then show "findWorkerNotRunningVTXTask env (pre @ w # post) = (Inr c, pre @ [w])"
    using findWorker_skip_prefix [of pre env "w # post"] by simp
qed

lemma examplePool_skipped:
  "skipped (examplePool ws c t exampleCreate) ''full''"
  by (simp add: skipped_def examplePool_def exampleCreate_def maxContainersMessage_def)

theorem findWorkerNotRunningVTXTask_policy_witness:
  "skipped (examplePool [] [] [] exampleCreate) ''full''
   \<and> findWorkerNotRunningVTXTask (examplePool [] [] [] exampleCreate) [''full'', ''full''] =
       (Inl (ErrorsNew ''failed to create container on all compatible workers''),
        [''full'', ''full''])
   \<and> FindOrCreateBuildContainer (examplePool [] [] [] exampleCreate) ''broken''
       = Inl ''connection refused''
   \<and> \<not> strings_Contains ''connection refused'' maxContainersMessage
   \<and> findWorkerNotRunningVTXTask (examplePool [] [] [] exampleCreate)
       ([''full''] @ ''broken'' # [''w3'']) =
       (Inl (Foreign ''connection refused''), [''full''] @ [''broken''])
   \<and> FindOrCreateBuildContainer (examplePool [] [] [] exampleCreate) ''w2''
       = Inr ''container-on-w2''
   \<and> findWorkerNotRunningVTXTask (examplePool [] [] [] exampleCreate)
       ([''full''] @ ''w2'' # [''w3'']) = (Inr ''container-on-w2'', [''full''] @ [''w2''])"
proof -
  let ?env = "examplePool [] [] [] exampleCreate"
  have full: "skipped ?env ''full''" by (rule examplePool_skipped)
  have broken: "FindOrCreateBuildContainer ?env ''broken'' = Inl ''connection refused''"
    by (simp add: examplePool_def exampleCreate_def)
  have other: "\<not> strings_Contains ''connection refused'' maxContainersMessage"
    by (simp add: maxContainersMessage_def)
  have w2: "FindOrCreateBuildContainer ?env ''w2'' = Inr ''container-on-w2''"
    by (simp add: examplePool_def exampleCreate_def)
  show ?thesis
    using full broken other w2
      findWorkerNotRunningVTXTask_policy
        [of "[''full'', ''full'']" ?env "[''full'']" "''broken''" "''connection refused''"
            "[''w3'']" "''container-on-w2''"]
      findWorkerNotRunningVTXTask_policy
        [of "[''full'', ''full'']" ?env "[''full'']" "''w2''" "''connection refused''"
            "[''w3'']" "''container-on-w2''"]
    by simp
qed

lemma candidateInputCount_eq:
  assumes "\<forall>i \<in> set inputs. \<exists>found. InputVolumeOn env i w = Inr found"
  shows "candidateInputCount env w inputs count = Inr (count + inputCount env inputs w)"
  using assms
proof (induction inputs arbitrary: count)
  case Nil
  show ?case by (simp add: inputCount_def)
next
  case (Cons i inputs)
  then obtain found where "InputVolumeOn env i w = Inr found" by auto
  with Cons show ?case by (cases found) (simp_all add: inputCount_def)
qed

lemma workersByCountLoop_eq:
  assumes "\<forall>w \<in> set ws. \<forall>i \<in> set inputs. \<exists>found. InputVolumeOn env i w = Inr found"
  shows "workersByCountLoop env inputs ws workersByCount highestCount
     = Inr (\<lambda>count. workersByCount count @ filter (\<lambda>w. inputCount env inputs w = count) ws,
            fold max (map (inputCount env inputs) ws) highestCount)"
  using assms
proof (induction ws arbitrary: workersByCount highestCount)
  case Nil
  show ?case by simp
next
  case (Cons a ws)
  have count: "candidateInputCount env a inputs 0 = Inr (inputCount env inputs a)"
    using Cons.prems candidateInputCount_eq [of inputs env a 0] by simp
  have rest: "\<forall>w \<in> set ws. \<forall>i \<in> set inputs. \<exists>found. InputVolumeOn env i w = Inr found"
    using Cons.prems by simp
  have m: "(if inputCount env inputs a \<ge> highestCount then inputCount env inputs a
            else highestCount) = max (inputCount env inputs a) highestCount"
    by (simp add: max_def)
  show ?case
    by (simp only: workersByCountLoop.simps count sum.case Cons.IH [OF rest] m)
       (auto simp: fun_eq_iff)
qed

lemma fold_max_ge: "(h :: nat) \<le> fold max xs h \<and> (\<forall>x \<in> set xs. x \<le> fold max xs h)"
proof (induction xs arbitrary: h)
  case Nil
  show ?case by simp
next
  case (Cons x xs)
  have "max x h \<le> fold max xs (max x h)" using Cons.IH by blast
  with Cons.IH [of "max x h"] show ?case by auto
qed

lemma fold_max_in: "xs \<noteq> [] \<Longrightarrow> fold max xs (0 :: nat) \<in> set xs"
proof -
  have gen: "\<And>h :: nat. fold max xs h = h \<or> fold max xs h \<in> set xs"
  proof (induction xs)
    case Nil
    show ?case by simp
  next
    case (Cons x xs)
    from Cons.IH [of "max x h"] show ?case by (auto simp: max_def split: if_splits)
  qed
  assume ne: "xs \<noteq> []"
  show ?thesis
  proof (cases "fold max xs 0 \<in> set xs")
    case True
    then show ?thesis .
  next
    case False
    with gen [of 0] have z: "fold max xs 0 = 0" by simp
    from ne obtain x where x: "x \<in> set xs" by (cases xs) auto
    with fold_max_ge [of 0 xs] z have "x = 0" by auto
    with x z False show ?thesis by simp
  qed
qed

text \<open>
  The placement of the pool: when no worker hosts a container of the build yet, the
  candidates handed to \<open>findWorkerNotRunningVTXTask\<close> are the compatible workers tied for
  the greatest number of inputs with a volume, in pool order.
\<close>

lemma pool_placement_candidates:
  assumes "FindWorkerForBuildContainer env = Inr None"
    and "AllSatisfying env spec = Inr compatible"
    and "\<forall>w \<in> set compatible. \<forall>i \<in> set inputs. \<exists>found. InputVolumeOn env i w = Inr found"
  shows "\<exists>highest. pool_FindOrCreateBuildContainer env spec inputs
       = findWorkerNotRunningVTXTask env
           (filter (\<lambda>w. inputCount env inputs w = highest) compatible)
     \<and> (\<forall>w \<in> set compatible. inputCount env inputs w \<le> highest)
     \<and> (compatible \<noteq> [] \<longrightarrow> (\<exists>w \<in> set compatible. inputCount env inputs w = highest))"
proof -
  let ?highest = "fold max (map (inputCount env inputs) compatible) 0"
  have run: "pool_FindOrCreateBuildContainer env spec inputs
       = findWorkerNotRunningVTXTask env
           (filter (\<lambda>w. inputCount env inputs w = ?highest) compatible)"
    using assms(1,2) workersByCountLoop_eq [OF assms(3), of "\<lambda>count. []" 0]
    by (simp add: pool_FindOrCreateBuildContainer_def)
  have most: "\<forall>w \<in> set compatible. inputCount env inputs w \<le> ?highest"
    using fold_max_ge [of 0 "map (inputCount env inputs) compatible"] by simp
  have attained: "compatible \<noteq> [] \<longrightarrow> (\<exists>w \<in> set compatible. inputCount env inputs w = ?highest)"
  proof
    assume "compatible \<noteq> []"
    then have "?highest \<in> set (map (inputCount env inputs) compatible)"
      using fold_max_in [of "map (inputCount env inputs) compatible"] by simp
    then obtain w where "w \<in> set compatible" "inputCount env inputs w = ?highest"
      by (auto simp del: fold_simps)
    then show "\<exists>w \<in> set compatible. inputCount env inputs w = ?highest" by blast
  qed
  show ?thesis using run most attained by blast
qed

section \<open>Properties of the decimal text\<close>

lemma digitChar_isDigit: "d < 10 \<Longrightarrow> isDigit (digitChar d)"
  by (simp add: isDigit_def digitChar_def)

lemma digitChar_value: "d < 10 \<Longrightarrow> (of_char (digitChar d) :: nat) - 48 = d"
  by (simp add: digitChar_def)

lemma decimalDigits_all: "\<forall>c \<in> set (decimalDigits n). isDigit c"
proof (induction n rule: decimalDigits.induct)
  case (1 n)
  show ?case
  proof (cases "n < 10")
    case True
    then show ?thesis by (subst decimalDigits.simps) (simp add: digitChar_isDigit)
  next
    case False
    with 1 show ?thesis by (subst decimalDigits.simps) (simp add: digitChar_isDigit)
  qed
qed

lemma decimalDigits_nonempty: "decimalDigits n \<noteq> []"
  by (subst decimalDigits.simps) simp

lemma digitsValue_snoc:
  "digitsValue (ds @ [c]) = 10 * digitsValue ds + ((of_char c :: nat) - 48)"
  by (simp add: digitsValue_def)

lemma digitsValue_decimalDigits: "digitsValue (decimalDigits n) = n"
proof (induction n rule: decimalDigits.induct)
  case (1 n)
  show ?case
  proof (cases "n < 10")
    case True
    then show ?thesis
      by (subst decimalDigits.simps) (simp add: digitsValue_def digitChar_value)
  next
    case False
    with 1 have "digitsValue (decimalDigits (n div 10)) = n div 10" by simp
    with False show ?thesis
      by (subst decimalDigits.simps) (simp add: digitsValue_snoc digitChar_value)
  qed
qed

lemma isDigit_not_blank: "isDigit c \<Longrightarrow> \<not> isBlank c \<and> c \<noteq> CHR ''-'' \<and> c \<noteq> CHR ''+''"
  by (auto simp: isDigit_def isBlank_def)

lemma takeWhile_decimalDigits: "takeWhile isDigit (decimalDigits n) = decimalDigits n"
  using decimalDigits_all by (simp add: takeWhile_eq_all_conv)

lemma scanInt_decimalDigits: "scanInt (decimalDigits n) = Inr (int n)"
proof -
  obtain c cs where cs: "decimalDigits n = c # cs"
    using decimalDigits_nonempty by (cases "decimalDigits n") auto
  have "isDigit c" using decimalDigits_all [of n] cs by simp
  then have nb: "\<not> isBlank c" "c \<noteq> CHR ''-''" "c \<noteq> CHR ''+''"
    using isDigit_not_blank by auto
  have tw: "takeWhile isDigit (c # cs) = c # cs"
    using takeWhile_decimalDigits [of n] cs by simp
  have dv: "digitsValue (c # cs) = n"
    using digitsValue_decimalDigits [of n] cs by simp
  show ?thesis
    by (simp add: scanInt_def cs Let_def nb tw dv del: takeWhile.simps)
qed

lemma scanInt_formatInt: "scanInt (formatInt v) = Inr v"
proof (cases "v < 0")
  case False
  then show ?thesis by (simp add: formatInt_def scanInt_decimalDigits)
next
  case True
  have nb: "\<not> isBlank (CHR ''-'')" by (simp add: isBlank_def)
  have "decimalDigits (nat (- v)) \<noteq> []" by (rule decimalDigits_nonempty)
  then show ?thesis
    using True nb
    by (simp add: formatInt_def scanInt_def Let_def takeWhile_decimalDigits
          digitsValue_decimalDigits)
qed

text \<open>Scanning the decimal text of a status gives the status back.\<close>

lemma Sscanf_d_Sprintf_d: "Sscanf_d (Sprintf_d n) = Inr n"
proof -
  have "- (2 ^ 63) \<le> sint n" "sint n < 2 ^ 63"
    using sint_ge [of n] sint_lt [of n] by simp_all
  then show ?thesis
    by (simp add: Sscanf_d_def Sprintf_d_def scanInt_formatInt)
qed

lemma Sprintf_d_examples:
  "Sprintf_d 0 = ''0''" "Sprintf_d 1 = ''1''" "Sprintf_d 137 = ''137''" "Sprintf_d (- 1) = ''-1''"
  by code_simp+

section \<open>Properties of worker selection\<close>

lemma inputsOnLoop_length:
  "inputsOnLoop env r root w inputs mounts pairs missing = Inr (mounts', pairs')
   \<Longrightarrow> length mounts' = length mounts + volumeCount env r inputs w"
proof (induction inputs arbitrary: mounts pairs missing)
  case Nil
  then show ?case by (simp add: volumeCount_def split: if_splits)
next
  case (Cons i inputs)
  show ?case
  proof (cases "SourceFor r (InputName i)")
    case None
    with Cons show ?thesis by (simp add: volumeCount_def hasVolumeOn_def)
  next
    case (Some source)
    show ?thesis
    proof (cases "VolumeOn env source w")
      case (Inl err)
      with Cons.prems Some show ?thesis by simp
    next
      case (Inr found)
      with Cons Some show ?thesis
        by (cases found) (auto simp: volumeCount_def hasVolumeOn_def)
    qed
  qed
qed

lemma inputsOn_length:
  "inputsOn env r root inputs w = Inr (mounts, toStream)
   \<Longrightarrow> length mounts = volumeCount env r inputs w"
  using inputsOnLoop_length [of env r root w inputs "[]" "[]" "[]" mounts toStream]
  by (simp add: inputsOn_def)

lemma inputsOnLoop_missing:
  assumes "\<forall>i \<in> set inputs. \<not> lookupFails env r w i"
    and "missing @ missingNames r inputs \<noteq> []"
  shows "inputsOnLoop env r root w inputs mounts pairs missing
           = Inl (MissingInputsError (missing @ missingNames r inputs))"
  using assms
proof (induction inputs arbitrary: mounts pairs missing)
  case Nil
  then show ?case by (simp add: missingNames_def)
next
  case (Cons i inputs)
  show ?case
  proof (cases "SourceFor r (InputName i)")
    case None
    with Cons.prems Cons.IH [of "missing @ [InputName i]" mounts pairs]
    show ?thesis by (simp add: missingNames_def)
  next
    case (Some source)
    from Cons.prems Some obtain found where found: "VolumeOn env source w = Inr found"
      by (cases "VolumeOn env source w") (auto simp: lookupFails_def)
    from Cons.prems Some have rest: "missing @ missingNames r inputs \<noteq> []"
      by (simp add: missingNames_def)
    from Cons.prems have nofail: "\<forall>i \<in> set inputs. \<not> lookupFails env r w i" by simp
    from Some have names: "missingNames r (i # inputs) = missingNames r inputs"
      by (simp add: missingNames_def)
    show ?thesis
      using Cons.IH [OF nofail rest] Some found names
      by (cases found) simp_all
  qed
qed

lemma inputsOnLoop_complete:
  assumes "\<forall>i \<in> set inputs. \<not> lookupFails env r w i"
    and "missing @ missingNames r inputs = []"
  shows "\<exists>mounts' pairs'. inputsOnLoop env r root w inputs mounts pairs missing
           = Inr (mounts', pairs')"
  using assms
proof (induction inputs arbitrary: mounts pairs)
  case Nil
  then show ?case by simp
next
  case (Cons i inputs)
  from Cons.prems obtain source where Some: "SourceFor r (InputName i) = Some source"
    by (cases "SourceFor r (InputName i)") (auto simp: missingNames_def)
  from Cons.prems Some obtain found where found: "VolumeOn env source w = Inr found"
    by (cases "VolumeOn env source w") (auto simp: lookupFails_def)
  from Cons.prems Some have rest: "missing @ missingNames r inputs = []"
    by (simp add: missingNames_def)
  from Cons.prems have nofail: "\<forall>i \<in> set inputs. \<not> lookupFails env r w i" by simp
  show ?case
    using Cons.IH [OF nofail rest] Some found Cons.prems
    by (cases found) simp_all
qed

lemma chooseLoop_most:
  assumes "\<forall>w \<in> set ws. \<exists>m t. inputsOn env r root inputs w = Inr (m, t)"
  shows "\<exists>chosen' mounts' toStream' released'.
     chooseLoop env r root inputs ws chosen inputMounts toStream released
       = (Inr (chosen', mounts', toStream'), released')
     \<and> length inputMounts \<le> length mounts'
     \<and> (\<forall>w \<in> set ws. volumeCount env r inputs w \<le> length mounts')
     \<and> ((chosen' = chosen \<and> mounts' = inputMounts \<and> toStream' = toStream
          \<and> (\<forall>w \<in> set ws. volumeCount env r inputs w < length inputMounts))
        \<or> (\<exists>pre w post. ws = pre @ w # post \<and> chosen' = Some w
             \<and> inputsOn env r root inputs w = Inr (mounts', toStream')
             \<and> (\<forall>w' \<in> set post. volumeCount env r inputs w' < length mounts')))"
  using assms
proof (induction ws arbitrary: chosen inputMounts toStream released)
  case Nil
  then show ?case by simp
next
  case (Cons a ws)
  from Cons.prems obtain m t where on: "inputsOn env r root inputs a = Inr (m, t)"
    by auto
  have len: "length m = volumeCount env r inputs a" using on by (rule inputsOn_length)
  from Cons.prems have rest: "\<forall>w \<in> set ws. \<exists>m t. inputsOn env r root inputs w = Inr (m, t)"
    by simp
  show ?case
  proof (cases "length m \<ge> length inputMounts")
    case True
    from Cons.IH [OF rest, of "Some a" m t "released @ map MountVolume inputMounts"]
    obtain chosen' mounts' toStream' released' where
      eq: "chooseLoop env r root inputs ws (Some a) m t (released @ map MountVolume inputMounts)
             = (Inr (chosen', mounts', toStream'), released')"
      and le: "length m \<le> length mounts'"
      and most: "\<forall>w \<in> set ws. volumeCount env r inputs w \<le> length mounts'"
      and which: "(chosen' = Some a \<and> mounts' = m \<and> toStream' = t
          \<and> (\<forall>w \<in> set ws. volumeCount env r inputs w < length m))
        \<or> (\<exists>pre w post. ws = pre @ w # post \<and> chosen' = Some w
             \<and> inputsOn env r root inputs w = Inr (mounts', toStream')
             \<and> (\<forall>w' \<in> set post. volumeCount env r inputs w' < length mounts'))"
      by blast
    have step: "chooseLoop env r root inputs (a # ws) chosen inputMounts toStream released
                  = (Inr (chosen', mounts', toStream'), released')"
      using on True eq by simp
    have later: "\<exists>pre w post. a # ws = pre @ w # post \<and> chosen' = Some w
             \<and> inputsOn env r root inputs w = Inr (mounts', toStream')
             \<and> (\<forall>w' \<in> set post. volumeCount env r inputs w' < length mounts')"
      using which
    proof
      assume "chosen' = Some a \<and> mounts' = m \<and> toStream' = t
          \<and> (\<forall>w \<in> set ws. volumeCount env r inputs w < length m)"
      then have "a # ws = [] @ a # ws \<and> chosen' = Some a
             \<and> inputsOn env r root inputs a = Inr (mounts', toStream')
             \<and> (\<forall>w' \<in> set ws. volumeCount env r inputs w' < length mounts')"
        using on by simp
      then show ?thesis by blast
    next
      assume "\<exists>pre w post. ws = pre @ w # post \<and> chosen' = Some w
             \<and> inputsOn env r root inputs w = Inr (mounts', toStream')
             \<and> (\<forall>w' \<in> set post. volumeCount env r inputs w' < length mounts')"
      then obtain pre w post where "ws = pre @ w # post" "chosen' = Some w"
        "inputsOn env r root inputs w = Inr (mounts', toStream')"
        "\<forall>w' \<in> set post. volumeCount env r inputs w' < length mounts'"
        by blast
      then have "a # ws = (a # pre) @ w # post \<and> chosen' = Some w
             \<and> inputsOn env r root inputs w = Inr (mounts', toStream')
             \<and> (\<forall>w' \<in> set post. volumeCount env r inputs w' < length mounts')"
        by simp
      then show ?thesis by blast
    qed
    show ?thesis
      using step le most later True len by auto
  next
    case False
    from Cons.IH [OF rest, of chosen inputMounts toStream "released @ map MountVolume m"]
    obtain chosen' mounts' toStream' released' where
      eq: "chooseLoop env r root inputs ws chosen inputMounts toStream
             (released @ map MountVolume m) = (Inr (chosen', mounts', toStream'), released')"
      and le: "length inputMounts \<le> length mounts'"
      and most: "\<forall>w \<in> set ws. volumeCount env r inputs w \<le> length mounts'"
      and which: "(chosen' = chosen \<and> mounts' = inputMounts \<and> toStream' = toStream
          \<and> (\<forall>w \<in> set ws. volumeCount env r inputs w < length inputMounts))
        \<or> (\<exists>pre w post. ws = pre @ w # post \<and> chosen' = Some w
             \<and> inputsOn env r root inputs w = Inr (mounts', toStream')
             \<and> (\<forall>w' \<in> set post. volumeCount env r inputs w' < length mounts'))"
      by blast
    have step: "chooseLoop env r root inputs (a # ws) chosen inputMounts toStream released
                  = (Inr (chosen', mounts', toStream'), released')"
      using on False eq by simp
    have which': "(chosen' = chosen \<and> mounts' = inputMounts \<and> toStream' = toStream
          \<and> (\<forall>w \<in> set (a # ws). volumeCount env r inputs w < length inputMounts))
        \<or> (\<exists>pre w post. a # ws = pre @ w # post \<and> chosen' = Some w
             \<and> inputsOn env r root inputs w = Inr (mounts', toStream')
             \<and> (\<forall>w' \<in> set post. volumeCount env r inputs w' < length mounts'))"
      using which
    proof
      assume "chosen' = chosen \<and> mounts' = inputMounts \<and> toStream' = toStream
          \<and> (\<forall>w \<in> set ws. volumeCount env r inputs w < length inputMounts)"
      then show ?thesis using False len by simp
    next
      assume "\<exists>pre w post. ws = pre @ w # post \<and> chosen' = Some w
             \<and> inputsOn env r root inputs w = Inr (mounts', toStream')
             \<and> (\<forall>w' \<in> set post. volumeCount env r inputs w' < length mounts')"
      then obtain pre w post where "ws = pre @ w # post" "chosen' = Some w"
        "inputsOn env r root inputs w = Inr (mounts', toStream')"
        "\<forall>w' \<in> set post. volumeCount env r inputs w' < length mounts'"
        by blast
      then have "a # ws = (a # pre) @ w # post \<and> chosen' = Some w
             \<and> inputsOn env r root inputs w = Inr (mounts', toStream')
             \<and> (\<forall>w' \<in> set post. volumeCount env r inputs w' < length mounts')"
        by simp
      then show ?thesis by blast
    qed
    show ?thesis
      using step le most which' False len by auto
  qed
qed

lemma inputsOn_complete:
  assumes "missingNames r inputs = []" and "\<forall>i \<in> set inputs. \<not> lookupFails env r w i"
  shows "\<exists>m t. inputsOn env r root inputs w = Inr (m, t)"
  using inputsOnLoop_complete [of inputs env r w "[]" root "[]" "[]"] assms
  by (simp add: inputsOn_def)

text \<open>
  C1 (as amended). Worker selection maximises volume affinity. For every non-empty list of
  compatible workers and every list of declared inputs, all registered in the repository
  and with no failing volume lookup on those workers, the routine chooses a worker of the
  list; the input mounts it returns are those of that worker, as many as the declared
  inputs that have a volume on it; no compatible worker has more such inputs. Among the
  workers tied for the greatest count it is the last in pool order that is chosen: every
  worker after the chosen one has a strictly smaller count.
\<close>

theorem chooseWorkerWithMostVolumes_most:
  assumes "ws \<noteq> []"
    and "missingNames r inputs = []"
    and "\<forall>w \<in> set ws. \<forall>i \<in> set inputs. \<not> lookupFails env r w i"
  shows "\<exists>w pre post inputMounts inputsToStream released.
     chooseWorkerWithMostVolumes env r root ws inputs
       = (Inr (Some w, inputMounts, inputsToStream), released)
     \<and> ws = pre @ w # post
     \<and> inputsOn env r root inputs w = Inr (inputMounts, inputsToStream)
     \<and> length inputMounts = volumeCount env r inputs w
     \<and> (\<forall>w' \<in> set ws. volumeCount env r inputs w' \<le> volumeCount env r inputs w)
     \<and> (\<forall>w' \<in> set post. volumeCount env r inputs w' < volumeCount env r inputs w)"
proof -
  have all: "\<forall>w \<in> set ws. \<exists>m t. inputsOn env r root inputs w = Inr (m, t)"
    using assms(2,3) inputsOn_complete by blast
  from chooseLoop_most [OF all, of None "[]" "[]" "[]"]
  obtain chosen' mounts' toStream' released' where
    eq: "chooseLoop env r root inputs ws None [] [] [] = (Inr (chosen', mounts', toStream'), released')"
    and most: "\<forall>w \<in> set ws. volumeCount env r inputs w \<le> length mounts'"
    and which: "(chosen' = None \<and> mounts' = [] \<and> toStream' = []
          \<and> (\<forall>w \<in> set ws. volumeCount env r inputs w < length ([] :: VolumeMount list)))
        \<or> (\<exists>pre w post. ws = pre @ w # post \<and> chosen' = Some w
             \<and> inputsOn env r root inputs w = Inr (mounts', toStream')
             \<and> (\<forall>w' \<in> set post. volumeCount env r inputs w' < length mounts'))"
    by blast
  from which assms(1) obtain pre w post where
    split: "ws = pre @ w # post" and chosen: "chosen' = Some w"
    and on: "inputsOn env r root inputs w = Inr (mounts', toStream')"
    and later: "\<forall>w' \<in> set post. volumeCount env r inputs w' < length mounts'"
    by (cases ws) auto
  have len: "length mounts' = volumeCount env r inputs w"
    using on by (rule inputsOn_length)
  show ?thesis
    using eq split chosen on later len most
    by (simp add: chooseWorkerWithMostVolumes_def) blast
qed

theorem chooseWorkerWithMostVolumes_most_witness:
  "[''w1'', ''w2'', ''w3''] \<noteq> []
   \<and> missingNames exampleRepo exampleInputs = []
   \<and> list_all (\<lambda>w. list_all (\<lambda>i. \<not> lookupFails exampleEnv exampleRepo w i) exampleInputs)
        [''w1'', ''w2'', ''w3'']
   \<and> (\<exists>w pre post inputMounts inputsToStream released.
     chooseWorkerWithMostVolumes exampleEnv exampleRepo ''/tmp/build/x'' [''w1'', ''w2'', ''w3'']
         exampleInputs
       = (Inr (Some w, inputMounts, inputsToStream), released)
     \<and> [''w1'', ''w2'', ''w3''] = pre @ w # post
     \<and> inputsOn exampleEnv exampleRepo ''/tmp/build/x'' exampleInputs w
         = Inr (inputMounts, inputsToStream)
     \<and> length inputMounts = volumeCount exampleEnv exampleRepo exampleInputs w
     \<and> (\<forall>w' \<in> set [''w1'', ''w2'', ''w3''].
           volumeCount exampleEnv exampleRepo exampleInputs w'
             \<le> volumeCount exampleEnv exampleRepo exampleInputs w)
     \<and> (\<forall>w' \<in> set post. volumeCount exampleEnv exampleRepo exampleInputs w'
           < volumeCount exampleEnv exampleRepo exampleInputs w))"
proof -
  have h1: "[''w1'', ''w2'', ''w3''] \<noteq> ([] :: Worker list)" by simp
  have h2: "missingNames exampleRepo exampleInputs = []"
    by (simp add: missingNames_def SourceFor_def exampleRepo_def exampleInputs_def)
  have h3: "\<forall>w \<in> set [''w1'', ''w2'', ''w3'']. \<forall>i \<in> set exampleInputs.
         \<not> lookupFails exampleEnv exampleRepo w i"
    by (simp add: lookupFails_def SourceFor_def exampleEnv_def exampleRepo_def
          exampleInputs_def exampleVolumeOn_def)
  have h3': "list_all (\<lambda>w. list_all (\<lambda>i. \<not> lookupFails exampleEnv exampleRepo w i)
                 exampleInputs) [''w1'', ''w2'', ''w3'']"
    using h3 by (simp add: list_all_iff)
  show ?thesis
    using h1 h2 h3'
      chooseWorkerWithMostVolumes_most [OF h1 h2 h3, of "''/tmp/build/x''"]
    by blast
qed


text \<open>
  Two workers tied for the greatest count: \<open>w2\<close> comes first in pool order, and the
  routine chooses \<open>w2b\<close>, since a worker with an equal count replaces the one chosen so
  far.
\<close>

theorem chooseWorkerWithMostVolumes_tie_counterexample:
  "fst (chooseWorkerWithMostVolumes exampleEnv exampleRepo ''/tmp/build/x''
          [''w2'', ''w2b'', ''w3''] exampleInputs)
     = Inr (Some ''w2b'',
            [\<lparr>MountVolume = ''A-on-w2b'', MountPath = ''/tmp/build/x/A''\<rparr>,
             \<lparr>MountVolume = ''B-on-w2b'', MountPath = ''/tmp/build/x/B''\<rparr>], [])
   \<and> volumeCount exampleEnv exampleRepo exampleInputs ''w2'' = 2
   \<and> volumeCount exampleEnv exampleRepo exampleInputs ''w2b'' = 2"
  by (simp add: chooseWorkerWithMostVolumes_def inputsOn_def SourceFor_def exampleEnv_def
        exampleRepo_def exampleInputs_def exampleVolumeOn_def inputDestination_def
        volumeCount_def hasVolumeOn_def)

section \<open>Properties of output registration and of the phases of a run\<close>

lemma upd_add_split: "r(k \<mapsto> v) ++ m = r ++ ([k \<mapsto> v] ++ m)"
  by (rule ext) (simp add: map_add_def split: option.splits)

lemma registerMounted_add:
  "registerMounted root c out outputPath mounts r
     = r ++ registerMounted root c out outputPath mounts Map.empty"
proof (induction mounts arbitrary: r)
  case Nil
  show ?case by simp
next
  case (Cons mount mounts)
  show ?case
  proof (cases "MountPath mount = outputPath")
    case False
    then show ?thesis using Cons.IH [of r] by simp
  next
    case True
    let ?src = "ContainerSource root c out (MountVolume mount)"
    let ?rest = "registerMounted root c out outputPath mounts Map.empty"
    have "registerMounted root c out outputPath (mount # mounts) r
            = registerMounted root c out outputPath mounts (r(OutputName out \<mapsto> ?src))"
      using True by (simp add: RegisterSource_def)
    also have "\<dots> = r(OutputName out \<mapsto> ?src) ++ ?rest"
      by (rule Cons.IH)
    also have "\<dots> = r ++ ([OutputName out \<mapsto> ?src] ++ ?rest)"
      by (rule upd_add_split)
    also have "[OutputName out \<mapsto> ?src] ++ ?rest
            = registerMounted root c out outputPath mounts [OutputName out \<mapsto> ?src]"
      by (rule Cons.IH [symmetric])
    also have "\<dots> = registerMounted root c out outputPath (mount # mounts) Map.empty"
      using True by (simp add: RegisterSource_def)
    finally show ?thesis .
  qed
qed

lemma registerOutputs_add:
  "registerOutputs env root c volumeMounts outs r
     = r ++ registerOutputs env root c volumeMounts outs Map.empty"
proof (induction outs arbitrary: r)
  case Nil
  show ?case by simp
next
  case (Cons out outs)
  let ?rest = "registerOutputs env root c volumeMounts outs Map.empty"
  show ?case
  proof (cases "length volumeMounts > 0")
    case True
    let ?m = "registerMounted root c out (artifactsPath env out root) volumeMounts"
    have "registerOutputs env root c volumeMounts (out # outs) r
            = registerOutputs env root c volumeMounts outs (?m r)"
      using True by simp
    also have "\<dots> = ?m r ++ ?rest" by (rule Cons.IH)
    also have "?m r = r ++ ?m Map.empty" by (rule registerMounted_add)
    also have "(r ++ ?m Map.empty) ++ ?rest = r ++ (?m Map.empty ++ ?rest)"
      by (simp only: map_add_assoc)
    also have "?m Map.empty ++ ?rest = registerOutputs env root c volumeMounts outs (?m Map.empty)"
      by (rule Cons.IH [symmetric])
    also have "\<dots> = registerOutputs env root c volumeMounts (out # outs) Map.empty"
      using True by simp
    finally show ?thesis .
  next
    case False
    let ?src = "ContainerSource root c out ''''"
    have "registerOutputs env root c volumeMounts (out # outs) r
            = registerOutputs env root c volumeMounts outs (r(OutputName out \<mapsto> ?src))"
      using False by (simp add: RegisterSource_def)
    also have "\<dots> = r(OutputName out \<mapsto> ?src) ++ ?rest" by (rule Cons.IH)
    also have "\<dots> = r ++ ([OutputName out \<mapsto> ?src] ++ ?rest)"
      by (rule upd_add_split)
    also have "[OutputName out \<mapsto> ?src] ++ ?rest
            = registerOutputs env root c volumeMounts outs [OutputName out \<mapsto> ?src]"
      by (rule Cons.IH [symmetric])
    also have "\<dots> = registerOutputs env root c volumeMounts (out # outs) Map.empty"
      using False by (simp add: RegisterSource_def)
    finally show ?thesis .
  qed
qed

lemma registerMounted_dom: "dom r \<subseteq> dom (registerMounted root c out outputPath mounts r)"
  by (subst registerMounted_add) simp

lemma registerOutputs_dom: "dom r \<subseteq> dom (registerOutputs env root c volumeMounts outs r)"
  by (subst registerOutputs_add) simp

lemma registerMounted_matching:
  assumes "\<exists>mount \<in> set mounts. MountPath mount = outputPath"
  shows "OutputName out \<in> dom (registerMounted root c out outputPath mounts r)"
  using assms
proof (induction mounts arbitrary: r)
  case Nil
  then show ?case by simp
next
  case (Cons mount mounts)
  show ?case
  proof (cases "MountPath mount = outputPath")
    case True
    let ?r = "r(OutputName out \<mapsto> ContainerSource root c out (MountVolume mount))"
    have "OutputName out \<in> dom ?r" by simp
    then have "OutputName out \<in> dom (registerMounted root c out outputPath mounts ?r)"
      using registerMounted_dom [of ?r root c out outputPath mounts] by blast
    then show ?thesis using True by (simp add: RegisterSource_def)
  next
    case False
    with Cons show ?thesis by simp
  qed
qed

text \<open>
  What \<open>registerSource\<close> does guarantee: a declared output gets a source when the
  container reports no volume mount at all, or reports one at the output's path.
\<close>

lemma registerOutputs_registered:
  assumes "out \<in> set outs"
    and "volumeMounts = []
       \<or> (\<exists>mount \<in> set volumeMounts. MountPath mount = artifactsPath env out root)"
  shows "OutputName out \<in> dom (registerOutputs env root c volumeMounts outs r)"
  using assms(1)
proof (induction outs arbitrary: r)
  case Nil
  then show ?case by simp
next
  case (Cons a outs)
  show ?case
  proof (cases "out = a")
    case False
    with Cons.prems have "out \<in> set outs" by simp
    then have "\<And>r. OutputName out \<in> dom (registerOutputs env root c volumeMounts outs r)"
      by (rule Cons.IH)
    then show ?thesis by (cases "length volumeMounts > 0") simp_all
  next
    case True
    show ?thesis
    proof (cases "length volumeMounts > 0")
      case True
      let ?r = "registerMounted root c out (artifactsPath env out root) volumeMounts r"
      from True assms(2) have "OutputName out \<in> dom ?r"
        using registerMounted_matching by fastforce
      then have "OutputName out \<in> dom (registerOutputs env root c volumeMounts outs ?r)"
        using registerOutputs_dom [of ?r env root c volumeMounts outs] by blast
      then show ?thesis using True \<open>out = a\<close> by simp
    next
      case False
      let ?r = "r(OutputName out \<mapsto> ContainerSource root c out '''')"
      have "OutputName out \<in> dom ?r" by simp
      then have "OutputName out \<in> dom (registerOutputs env root c volumeMounts outs ?r)"
        using registerOutputs_dom [of ?r env root c volumeMounts outs] by blast
      then show ?thesis using False \<open>out = a\<close> by (simp add: RegisterSource_def)
    qed
  qed
qed

text \<open>
  With the container at hand, registering the outputs succeeds and adds
  \<open>outputSources\<close> to the repository, overriding earlier entries of the same names.
\<close>

lemma registerSource_found:
  assumes "container step = Some c"
  shows "registerSource env config step
     = Inr (step\<lparr>repo := repo step
              ++ outputSources env config (sourceName step) (artifactsRoot step) c\<rparr>)"
proof (cases "length (Outputs config) = 0")
  case True
  then show ?thesis
    by (simp add: registerSource_def outputSources_def RegisterSource_def)
next
  case False
  then show ?thesis
    using assms
      registerOutputs_add [of env "artifactsRoot step" c "VolumeMounts env c" "Outputs config"
        "repo step"]
    by (simp add: registerSource_def outputSources_def)
qed

text \<open>The steps of a new session leave the container field of the step as it is.\<close>

lemma createContainerDir_container:
  "createContainerDir env c dir step = (res, step') \<Longrightarrow> container step' = container step"
  by (auto simp: createContainerDir_def called_def split: option.splits)

lemma streamInputs_container:
  "streamInputs env c inputPairs step = (res, step') \<Longrightarrow> container step' = container step"
proof (induction inputPairs arbitrary: step)
  case Nil
  then show ?case by simp
next
  case (Cons pair inputPairs)
  obtain input source where pair: "pair = (input, source)" by (cases pair)
  show ?case
  proof (cases "StreamTo env source c input")
    case None
    with Cons.prems pair
    have "container step' = container (called [StreamToCall source c (InputName input)] step)"
      using Cons.IH by simp
    then show ?thesis by (simp add: called_def)
  next
    case (Some err)
    with Cons.prems pair show ?thesis by (auto simp: called_def)
  qed
qed

lemma setupOutputs_container:
  "setupOutputs env c outs step = (res, step') \<Longrightarrow> container step' = container step"
proof (induction outs arbitrary: step)
  case Nil
  then show ?case by simp
next
  case (Cons out outs)
  obtain r1 step1 where dir:
    "createContainerDir env c (artifactsPath env out (artifactsRoot step)) step = (r1, step1)"
    by (cases "createContainerDir env c (artifactsPath env out (artifactsRoot step)) step")
  have c1: "container step1 = container step"
    using dir by (rule createContainerDir_container)
  show ?case
  proof (cases r1)
    case (Inl err)
    with Cons.prems dir c1 show ?thesis by simp
  next
    case (Inr u)
    with Cons.prems dir have "setupOutputs env c outs step1 = (res, step')" by simp
    then have "container step' = container step1" by (rule Cons.IH)
    with c1 show ?thesis by simp
  qed
qed

lemma setProperty_container:
  "setProperty env c name v step = (res, step') \<Longrightarrow> container step' = container step"
  by (auto simp: setProperty_def called_def split: option.splits)

lemma Run_found_container:
  "Run_found env config c step = (Inr WaitForProcess, step') \<Longrightarrow> container step' = container step"
  by (auto simp: Run_found_def called_def split: sum.splits option.splits)

lemma Run_new_container:
  assumes "Run_new env config step = (Inr WaitForProcess, step')"
  shows "\<exists>c. container step' = Some c"
proof -
  from assms obtain compatible where
    pool: "workerPoolAllSatisfying env (workerSpecFor config step) = Inr compatible"
    by (cases "workerPoolAllSatisfying env (workerSpecFor config step)")
       (auto simp: Run_new_def)
  obtain r1 step1 where cc:
    "createContainer env compatible config (called [Initializing] step) = (r1, step1)"
    by (cases "createContainer env compatible config (called [Initializing] step)")
  from assms pool cc obtain c inputsToStream where r1: "r1 = Inr (c, inputsToStream)"
    by (cases r1) (auto simp: Run_new_def)
  obtain r2 step2 where e:
    "ensureBuildDirExists env c (step1\<lparr>container := Some c\<rparr>) = (r2, step2)"
    by (cases "ensureBuildDirExists env c (step1\<lparr>container := Some c\<rparr>)")
  have c2: "container step2 = Some c"
    using e createContainerDir_container by (fastforce simp: ensureBuildDirExists_def)
  obtain r3 step3 where si: "streamInputs env c inputsToStream step2 = (r3, step3)"
    by (cases "streamInputs env c inputsToStream step2")
  have c3: "container step3 = Some c" using si c2 streamInputs_container by fastforce
  obtain r4 step4 where so: "setupOutputs env c (Outputs config) step3 = (r4, step4)"
    by (cases "setupOutputs env c (Outputs config) step3")
  have c4: "container step4 = Some c" using so c3 setupOutputs_container by fastforce
  from assms pool cc r1 e si so have "container step' = container step4"
    by (auto simp: Run_new_def Let_def called_def split: sum.splits prod.splits
          dest: setProperty_container)
  with c4 show ?thesis by simp
qed

lemma Run_prepare_container:
  assumes "Run_prepare env config step = (Inr WaitForProcess, step')"
  shows "\<exists>c. container step' = Some c"
proof (cases "FindContainerForIdentifier env")
  case (Inl err)
  with assms show ?thesis by (simp add: Run_prepare_def Run_new_container)
next
  case (Inr found)
  show ?thesis
  proof (cases found)
    case None
    with assms Inr show ?thesis by (simp add: Run_prepare_def Run_new_container)
  next
    case (Some c)
    with assms Inr show ?thesis
      using Run_found_container [of env config c "step\<lparr>container := Some c\<rparr>" step']
      by (simp add: Run_prepare_def)
  qed
qed

section \<open>The example build, step by step\<close>

lemma example_choice:
  "chooseWorkerWithMostVolumes (exampleEnv\<lparr>VolumeMounts := vm, Wait := x\<rparr>) exampleRepo
     ''/tmp/build/x'' [''w1'', ''w2'', ''w3''] exampleInputs
   = (Inr (Some ''w2'',
           [\<lparr>MountVolume = ''A-on-w2'', MountPath = ''/tmp/build/x/A''\<rparr>,
            \<lparr>MountVolume = ''B-on-w2'', MountPath = ''/tmp/build/x/B''\<rparr>], []),
      [''A-on-w1''])"
  by (simp add: chooseWorkerWithMostVolumes_def inputsOn_def SourceFor_def exampleEnv_def
        exampleRepo_def exampleInputs_def exampleVolumeOn_def inputDestination_def)

lemma example_createContainer:
  "createContainer (exampleEnv\<lparr>VolumeMounts := vm, Wait := x\<rparr>) [''w1'', ''w2'', ''w3'']
     exampleConfig (called [Initializing] (exampleStep\<lparr>container := None\<rparr>))
   = (Inr (''task-container'', []),
      exampleStep\<lparr>calls :=
          [Initializing, VolumeReleaseCall ''A-on-w1'', CreateVolumeCall ''w2'',
           CreateContainerCall ''w2'', VolumeReleaseCall ''A-on-w2'',
           VolumeReleaseCall ''B-on-w2'', VolumeReleaseCall ''output-volume'']\<rparr>)"
proof -
  have inputs: "Inputs exampleConfig = exampleInputs" by (simp add: exampleConfig_def)
  have r: "repo (called [Initializing] (exampleStep\<lparr>container := None\<rparr>)) = exampleRepo"
    "artifactsRoot (called [Initializing] (exampleStep\<lparr>container := None\<rparr>)) = ''/tmp/build/x''"
    by (simp_all add: called_def exampleStep_def)
  show ?thesis
    apply (subst createContainer.simps)
    apply (simp only: inputs r example_choice)
    apply (simp add: containerSpecFor_def exampleConfig_def exampleOutput_def artifactsPath_def
        exampleEnv_def called_def exampleStep_def)
    done
qed

lemma example_prepare_mounts:
  "Run_prepare (exampleEnv\<lparr>VolumeMounts := vm, Wait := x\<rparr>) exampleConfig exampleStep
     = (Inr WaitForProcess, examplePrepared)"
proof -
  have pool: "workerPoolAllSatisfying (exampleEnv\<lparr>VolumeMounts := vm, Wait := x\<rparr>)
                (workerSpecFor exampleConfig (exampleStep\<lparr>container := None\<rparr>))
              = Inr [''w1'', ''w2'', ''w3'']"
    by (simp add: exampleEnv_def)
  have find: "FindContainerForIdentifier (exampleEnv\<lparr>VolumeMounts := vm, Wait := x\<rparr>) = Inr None"
    by (simp add: exampleEnv_def)
  show ?thesis
    apply (simp only: Run_prepare_def find sum.case option.case Run_new_def Let_def pool
        example_createContainer prod.case)
    apply (simp add: ensureBuildDirExists_def createContainerDir_def exampleEnv_def called_def
        exampleStep_def exampleConfig_def exampleOutput_def artifactsPath_def envForParams_def
        setProperty_def taskProcessPropertyName_def examplePrepared_def)
    done
qed

lemma example_prepare:
  "Run_prepare (exampleEnv\<lparr>Wait := x\<rparr>) exampleConfig exampleStep
     = (Inr WaitForProcess, examplePrepared)"
proof -
  have "exampleEnv\<lparr>VolumeMounts := VolumeMounts exampleEnv, Wait := x\<rparr> = exampleEnv\<lparr>Wait := x\<rparr>"
    by simp
  then show ?thesis using example_prepare_mounts [where vm = "VolumeMounts exampleEnv" and x = x] by simp
qed

section \<open>Properties of a run\<close>

lemma Run_select_signalled:
  assumes "Wait env = Signalled" and "container step = Some c"
  shows "Run_select env config step
     = (Inl ErrInterrupted,
        called [StopCall c False]
          (step\<lparr>repo := repo step
              ++ outputSources env config (sourceName step) (artifactsRoot step) c\<rparr>))"
  using assms by (simp add: Run_select_def registerSource_found)

lemma Run_select_exited:
  assumes "Wait env = Exited E" and "container step = Some c"
  shows "Run_select env config step
     = (case SetProperty env c taskExitStatusPropertyName (Sprintf_d E) of
          Some err \<Rightarrow>
            (Inl (Foreign err),
             called [SetPropertyCall c taskExitStatusPropertyName (Sprintf_d E)]
               (step\<lparr>repo := repo step
                   ++ outputSources env config (sourceName step) (artifactsRoot step) c,
                 exitStatus := E\<rparr>))
        | None \<Rightarrow>
            (Inr (),
             called [SetPropertyCall c taskExitStatusPropertyName (Sprintf_d E), Finished E]
               (step\<lparr>repo := repo step
                   ++ outputSources env config (sourceName step) (artifactsRoot step) c,
                 exitStatus := E,
                 properties := (properties step)
                   (c := (properties step c)(taskExitStatusPropertyName \<mapsto> Sprintf_d E))\<rparr>)))"
  using assms
  by (simp add: Run_select_def registerSource_found setProperty_def called_def
        split: option.splits)

lemma Run_waits:
  assumes "FetchConfig env (repo step) = Inr config"
    and "Run_prepare env config step = (Inr WaitForProcess, step1)"
  shows "Run env step = Run_select env config (called [CloseReady] step1)"
  using assms by (simp add: Run_def)

lemma outputSources_registered:
  assumes "out \<in> set (Outputs config)"
    and "VolumeMounts env c = []
       \<or> (\<exists>mount \<in> set (VolumeMounts env c). MountPath mount = artifactsPath env out root)"
  shows "OutputName out \<in> dom (outputSources env config name root c)"
proof -
  from assms(1) have "length (Outputs config) \<noteq> 0" by auto
  then show ?thesis
    using registerOutputs_registered [OF assms(1,2), of c Map.empty]
    by (simp add: outputSources_def)
qed

text \<open>
  What a cancelled run does in every case. When the run reaches the wait for the process
  and the cancellation signal is what the \<open>select\<close> receives, it calls \<open>registerSource\<close>,
  then \<open>Stop\<close> with \<open>kill = false\<close> on its container, as its last call, and returns the
  interrupted error. A declared output has a source afterwards when the container
  reports no volume mount at all, or one at the output's path.
\<close>

lemma Run_cancelled_outcome:
  assumes "FetchConfig env (repo step) = Inr config"
    and "Run_prepare env config step = (Inr WaitForProcess, step1)"
    and "Wait env = Signalled"
  shows "\<exists>c. container step1 = Some c
     \<and> fst (Run env step) = Inl ErrInterrupted
     \<and> repo (snd (Run env step))
         = repo step1 ++ outputSources env config (sourceName step1) (artifactsRoot step1) c
     \<and> calls (snd (Run env step)) = calls step1 @ [CloseReady, StopCall c False]
     \<and> (\<forall>out \<in> set (Outputs config).
           VolumeMounts env c = []
           \<or> (\<exists>mount \<in> set (VolumeMounts env c).
                 MountPath mount = artifactsPath env out (artifactsRoot step1))
           \<longrightarrow> OutputName out \<in> dom (repo (snd (Run env step))))"
proof -
  from assms(2) obtain c where c: "container step1 = Some c"
    using Run_prepare_container by blast
  then have c': "container (called [CloseReady] step1) = Some c"
    by (simp add: called_def)
  have run: "Run env step
     = (Inl ErrInterrupted,
        called [StopCall c False]
          ((called [CloseReady] step1)\<lparr>repo := repo step1
              ++ outputSources env config (sourceName step1) (artifactsRoot step1) c\<rparr>))"
    using Run_waits [OF assms(1,2)] Run_select_signalled [OF assms(3) c', of config]
    by (simp add: called_def)
  have reg: "\<forall>out \<in> set (Outputs config).
           VolumeMounts env c = []
           \<or> (\<exists>mount \<in> set (VolumeMounts env c).
                 MountPath mount = artifactsPath env out (artifactsRoot step1))
           \<longrightarrow> OutputName out \<in> dom (repo (snd (Run env step)))"
  proof (intro ballI impI)
    fix out
    assume "out \<in> set (Outputs config)"
      and "VolumeMounts env c = []
           \<or> (\<exists>mount \<in> set (VolumeMounts env c).
                 MountPath mount = artifactsPath env out (artifactsRoot step1))"
    then have "OutputName out
        \<in> dom (outputSources env config (sourceName step1) (artifactsRoot step1) c)"
      by (rule outputSources_registered)
    then show "OutputName out \<in> dom (repo (snd (Run env step)))"
      by (simp add: run called_def)
  qed
  show ?thesis
    using c run reg by (simp add: called_def)
qed

text \<open>
  C5 does not hold of the code. A cancelled run calls \<open>Stop\<close> with \<open>kill = false\<close> and
  returns the interrupted error, but it leaves a declared output unregistered when the
  container reports volume mounts of which none is at the output's path. Here the example
  task runs in a new session, the signal arrives while the step waits for the process, and
  the container reports the output volume at \<open>/tmp/build/x/out\<close>, while \<open>artifactsPath\<close>
  gives \<open>/tmp/build/x/out/\<close>: the repository has no source named \<open>out\<close>. The cause is the
  branch of \<open>registerSource\<close> for a container with volume mounts, the same as for C7.
\<close>

theorem Run_cancelled_unregistered_output:
  "fst (Run (exampleEnv\<lparr>VolumeMounts := exampleCleanedMounts, Wait := Signalled\<rparr>) exampleStep)
     = Inl ErrInterrupted
   \<and> calls (snd (Run (exampleEnv\<lparr>VolumeMounts := exampleCleanedMounts, Wait := Signalled\<rparr>)
                exampleStep))
       = calls examplePrepared @ [CloseReady, StopCall ''task-container'' False]
   \<and> Outputs exampleConfig = [\<lparr>OutputName = ''out'', OutputPath = ''''\<rparr>]
   \<and> SourceFor (repo (snd (Run (exampleEnv\<lparr>VolumeMounts := exampleCleanedMounts,
                                     Wait := Signalled\<rparr>) exampleStep))) ''out'' = None"
proof -
  let ?env = "exampleEnv\<lparr>VolumeMounts := exampleCleanedMounts, Wait := Signalled\<rparr>"
  have fetch: "FetchConfig ?env (repo exampleStep) = Inr exampleConfig"
    by (simp add: exampleEnv_def)
  have prepare: "Run_prepare ?env exampleConfig exampleStep = (Inr WaitForProcess, examplePrepared)"
    by (rule example_prepare_mounts)
  have w: "Wait ?env = Signalled" by simp
  have c: "container (called [CloseReady] examplePrepared) = Some ''task-container''"
    by (simp add: called_def examplePrepared_def)
  have none: "outputSources ?env exampleConfig ''build'' ''/tmp/build/x'' ''task-container''
                = Map.empty"
    by (simp add: outputSources_def exampleConfig_def exampleOutput_def artifactsPath_def
          exampleEnv_def exampleCleanedMounts_def)
  have names: "sourceName (called [CloseReady] examplePrepared) = ''build''"
    "artifactsRoot (called [CloseReady] examplePrepared) = ''/tmp/build/x''"
    "repo (called [CloseReady] examplePrepared) = exampleRepo"
    by (simp_all add: called_def examplePrepared_def exampleStep_def)
  have run: "Run ?env exampleStep = Run_select ?env exampleConfig (called [CloseReady] examplePrepared)"
    using Run_waits [OF fetch prepare] .
  show ?thesis
    apply (simp only: run Run_select_signalled [OF w c] names none)
    apply (simp add: called_def SourceFor_def exampleRepo_def exampleConfig_def
        exampleOutput_def)
    done
qed

text \<open>
  C6. Recording the exit status. For every run that reaches the wait for the process and
  whose process exits with status \<open>E\<close>: the step has a container; unless the runtime
  rejects the property (then that error is returned), the run returns success having set
  the container property \<open>concourse:exit-status\<close> to the decimal text of \<open>E\<close>, before it
  notifies the delegate; and in either case \<open>Result\<close> thereafter reports \<open>Success\<close> true
  exactly when \<open>E = 0\<close>, and \<open>ExitStatus\<close> equal to \<open>E\<close>.
\<close>

theorem Run_records_exit_status:
  assumes "FetchConfig env (repo step) = Inr config"
    and "Run_prepare env config step = (Inr WaitForProcess, step1)"
    and "Wait env = Exited E"
  shows "\<exists>c. container step1 = Some c
     \<and> (case SetProperty env c taskExitStatusPropertyName (Sprintf_d E) of
          Some err \<Rightarrow> fst (Run env step) = Inl (Foreign err)
        | None \<Rightarrow>
            fst (Run env step) = Inr ()
            \<and> properties (snd (Run env step)) c taskExitStatusPropertyName = Some (Sprintf_d E)
            \<and> calls (snd (Run env step))
                = calls step1 @ [CloseReady,
                    SetPropertyCall c taskExitStatusPropertyName (Sprintf_d E), Finished E])
     \<and> Result (snd (Run env step)) SuccessPointer = Some (Success (E = 0))
     \<and> Result (snd (Run env step)) ExitStatusPointer = Some (ExitStatus E)"
proof -
  from assms(2) obtain c where c: "container step1 = Some c"
    using Run_prepare_container by blast
  then have c': "container (called [CloseReady] step1) = Some c"
    by (simp add: called_def)
  show ?thesis
    using c Run_waits [OF assms(1,2)] Run_select_exited [OF assms(3) c', of config]
    by (cases "SetProperty env c taskExitStatusPropertyName (Sprintf_d E)")
       (simp_all add: called_def Result_def)
qed

theorem Run_records_exit_status_witness:
  "FetchConfig (exampleEnv\<lparr>Wait := Exited 137\<rparr>) (repo exampleStep) = Inr exampleConfig
   \<and> Run_prepare (exampleEnv\<lparr>Wait := Exited 137\<rparr>) exampleConfig exampleStep
       = (Inr WaitForProcess, examplePrepared)
   \<and> Wait (exampleEnv\<lparr>Wait := Exited 137\<rparr>) = Exited 137
   \<and> fst (Run (exampleEnv\<lparr>Wait := Exited 137\<rparr>) exampleStep) = Inr ()
   \<and> properties (snd (Run (exampleEnv\<lparr>Wait := Exited 137\<rparr>) exampleStep))
        ''task-container'' ''concourse:exit-status'' = Some ''137''
   \<and> Result (snd (Run (exampleEnv\<lparr>Wait := Exited 137\<rparr>) exampleStep)) SuccessPointer
       = Some (Success False)
   \<and> Result (snd (Run (exampleEnv\<lparr>Wait := Exited 137\<rparr>) exampleStep)) ExitStatusPointer
       = Some (ExitStatus 137)"
proof -
  let ?env = "exampleEnv\<lparr>Wait := Exited 137\<rparr>"
  have h1: "FetchConfig ?env (repo exampleStep) = Inr exampleConfig"
    by (simp add: exampleEnv_def)
  have h2: "Run_prepare ?env exampleConfig exampleStep = (Inr WaitForProcess, examplePrepared)"
    by (rule example_prepare)
  have h3: "Wait ?env = Exited 137" by simp
  have c: "container examplePrepared = Some ''task-container''"
    by (simp add: examplePrepared_def)
  have ok: "SetProperty ?env ''task-container'' taskExitStatusPropertyName (Sprintf_d 137) = None"
    by (simp add: exampleEnv_def)
  have dec: "Sprintf_d 137 = ''137''" by (rule Sprintf_d_examples)
  show ?thesis
    using h1 h2 h3 c ok dec Run_records_exit_status [OF h1 h2 h3]
    by (simp add: taskExitStatusPropertyName_def)
qed

lemma Run_recovers:
  assumes "FetchConfig env (repo step) = Inr config"
    and "FindContainerForIdentifier env = Inr (Some c)"
    and "properties step c taskExitStatusPropertyName = Some (Sprintf_d E)"
  shows "Run env step
     = (Inr (),
        step\<lparr>container := Some c, exitStatus := E,
             repo := repo step
               ++ outputSources env config (sourceName step) (artifactsRoot step) c\<rparr>)"
  using assms
  by (simp add: Run_def Run_prepare_def Run_found_def Property_def Sscanf_d_Sprintf_d
        registerSource_found)

lemma registerOutputs_cong:
  assumes "pathJoin env = pathJoin env0"
  shows "registerOutputs env root c volumeMounts outs r
           = registerOutputs env0 root c volumeMounts outs r"
  using assms by (induction outs arbitrary: r) (auto simp: artifactsPath_def)

lemma outputSources_cong:
  assumes "VolumeMounts env c = VolumeMounts env0 c" and "pathJoin env = pathJoin env0"
  shows "outputSources env config name root c = outputSources env0 config name root c"
  using assms(1) registerOutputs_cong [OF assms(2)] by (simp add: outputSources_def)

text \<open>
  C2. Recovery is idempotent. Let a first run end with the process exiting with status
  \<open>E\<close> and success, in the state \<open>step1\<close>, on the container \<open>c\<close>. Let the step be run
  again, by the same step or by a new one for the same task (same source name and
  artifacts root), against the same container: the container is found, carries the
  properties the first run left, and reports the same volume mounts. Then the second run
  returns success with the exit status \<open>E\<close> parsed from the property, so that \<open>Result\<close>
  answers as after the first run; it adds to its repository the same output sources that
  the first run added to its own; and it makes no call on any collaborator: no container
  is created, no process is started or attached, no property is written.
\<close>

theorem Run_recovery_idempotent:
  assumes "Wait env0 = Exited E"
    and "container step0 = Some c"
    and "Run_select env0 config step0 = (Inr (), step1)"
    and "FetchConfig env (repo step) = Inr config"
    and "FindContainerForIdentifier env = Inr (Some c)"
    and "properties step c = properties step1 c"
    and "sourceName step = sourceName step0"
    and "artifactsRoot step = artifactsRoot step0"
    and "VolumeMounts env c = VolumeMounts env0 c"
    and "pathJoin env = pathJoin env0"
  shows "\<exists>step'. Run env step = (Inr (), step')
     \<and> exitStatus step1 = E \<and> exitStatus step' = E
     \<and> Result step' = Result step1
     \<and> repo step1
         = repo step0 ++ outputSources env0 config (sourceName step0) (artifactsRoot step0) c
     \<and> repo step'
         = repo step ++ outputSources env0 config (sourceName step0) (artifactsRoot step0) c
     \<and> container step' = Some c
     \<and> properties step' = properties step
     \<and> calls step' = calls step"
proof -
  have first: "exitStatus step1 = E
     \<and> properties step1 c taskExitStatusPropertyName = Some (Sprintf_d E)
     \<and> repo step1
         = repo step0 ++ outputSources env0 config (sourceName step0) (artifactsRoot step0) c"
    using Run_select_exited [OF assms(1,2), of config] assms(3)
    by (cases "SetProperty env0 c taskExitStatusPropertyName (Sprintf_d E)")
       (auto simp: called_def)
  then have stored: "properties step c taskExitStatusPropertyName = Some (Sprintf_d E)"
    using assms(6) by simp
  have same: "outputSources env config (sourceName step) (artifactsRoot step) c
         = outputSources env0 config (sourceName step0) (artifactsRoot step0) c"
    using outputSources_cong [OF assms(9,10)] assms(7,8) by simp
  let ?step' = "step\<lparr>container := Some c, exitStatus := E,
             repo := repo step
               ++ outputSources env0 config (sourceName step0) (artifactsRoot step0) c\<rparr>"
  have run: "Run env step = (Inr (), ?step')"
    using Run_recovers [OF assms(4,5) stored] same by simp
  have result: "Result ?step' = Result step1"
    using first by (intro ext) (simp add: Result_def split: result_pointer.splits)
  show ?thesis
    using run result first by simp
qed

lemma example_outputSources:
  "outputSources (exampleEnv\<lparr>Wait := x\<rparr>) exampleConfig ''build'' ''/tmp/build/x'' ''task-container''
     = [''out'' \<mapsto> ContainerSource ''/tmp/build/x'' ''task-container'' exampleOutput ''output-volume'']"
  by (simp add: outputSources_def exampleConfig_def exampleEnv_def exampleOutput_def
        artifactsPath_def RegisterSource_def)

lemma example_finish:
  "Run_select (exampleEnv\<lparr>Wait := Exited 137\<rparr>) exampleConfig (called [CloseReady] examplePrepared)
     = (Inr (), exampleFinished)"
proof -
  have w: "Wait (exampleEnv\<lparr>Wait := Exited 137\<rparr>) = Exited 137" by simp
  have c: "container (called [CloseReady] examplePrepared) = Some ''task-container''"
    by (simp add: called_def examplePrepared_def)
  have dec: "Sprintf_d 137 = ''137''" by (rule Sprintf_d_examples)
  have names: "sourceName (called [CloseReady] examplePrepared) = ''build''"
    "artifactsRoot (called [CloseReady] examplePrepared) = ''/tmp/build/x''"
    by (simp_all add: called_def examplePrepared_def exampleStep_def)
  show ?thesis
    apply (simp only: Run_select_exited [OF w c] dec names example_outputSources)
    apply (simp add: exampleEnv_def called_def examplePrepared_def exampleStep_def
        exampleFinished_def taskExitStatusPropertyName_def)
    done
qed

theorem Run_recovery_idempotent_witness:
  "Wait (exampleEnv\<lparr>Wait := Exited 137\<rparr>) = Exited 137
   \<and> container (called [CloseReady] examplePrepared) = Some ''task-container''
   \<and> Run_select (exampleEnv\<lparr>Wait := Exited 137\<rparr>) exampleConfig
         (called [CloseReady] examplePrepared) = (Inr (), exampleFinished)
   \<and> FetchConfig (exampleFound exampleEnv) (repo (exampleRestarted (properties exampleFinished)))
       = Inr exampleConfig
   \<and> FindContainerForIdentifier (exampleFound exampleEnv) = Inr (Some ''task-container'')
   \<and> (\<exists>step'. Run (exampleFound exampleEnv) (exampleRestarted (properties exampleFinished))
                  = (Inr (), step')
         \<and> exitStatus exampleFinished = 137 \<and> exitStatus step' = 137
         \<and> Result step' = Result exampleFinished
         \<and> repo step' ''out'' = repo exampleFinished ''out''
         \<and> container step' = Some ''task-container''
         \<and> calls step' = [])"
proof -
  let ?before = "exampleEnv\<lparr>Wait := Exited 137\<rparr>"
  let ?waiting = "called [CloseReady] examplePrepared"
  let ?env = "exampleFound exampleEnv"
  let ?step = "exampleRestarted (properties exampleFinished)"
  have h1: "Wait ?before = Exited 137" by simp
  have h2: "container ?waiting = Some ''task-container''"
    by (simp add: called_def examplePrepared_def)
  have h3: "Run_select ?before exampleConfig ?waiting = (Inr (), exampleFinished)"
    by (rule example_finish)
  have h4: "FetchConfig ?env (repo ?step) = Inr exampleConfig"
    by (simp add: exampleFound_def exampleEnv_def)
  have h5: "FindContainerForIdentifier ?env = Inr (Some ''task-container'')"
    by (simp add: exampleFound_def)
  have h6: "properties ?step ''task-container'' = properties exampleFinished ''task-container''"
    by (simp add: exampleRestarted_def)
  have h7: "sourceName ?step = sourceName ?waiting"
    by (simp add: exampleRestarted_def called_def examplePrepared_def)
  have h8: "artifactsRoot ?step = artifactsRoot ?waiting"
    by (simp add: exampleRestarted_def called_def examplePrepared_def)
  have h9: "VolumeMounts ?env ''task-container'' = VolumeMounts ?before ''task-container''"
    by (simp add: exampleFound_def)
  have h10: "pathJoin ?env = pathJoin ?before"
    by (simp add: exampleFound_def)
  have empty: "calls ?step = []" by (simp add: exampleRestarted_def exampleStep_def)
  from Run_recovery_idempotent [OF h1 h2 h3 h4 h5 h6 h7 h8 h9 h10]
  obtain step' where run: "Run ?env ?step = (Inr (), step')"
    and st: "exitStatus exampleFinished = 137" "exitStatus step' = 137"
    and res: "Result step' = Result exampleFinished"
    and r1: "repo exampleFinished = repo ?waiting
         ++ outputSources ?before exampleConfig (sourceName ?waiting) (artifactsRoot ?waiting)
              ''task-container''"
    and r2: "repo step' = repo ?step
         ++ outputSources ?before exampleConfig (sourceName ?waiting) (artifactsRoot ?waiting)
              ''task-container''"
    and c: "container step' = Some ''task-container''"
    and cl: "calls step' = calls ?step"
    by blast
  have out: "repo step' ''out'' = repo exampleFinished ''out''"
    using r2 by (simp add: exampleFinished_def called_def examplePrepared_def exampleStep_def
        example_outputSources)
  show ?thesis
    using h1 h2 h3 h4 h5 run st res out c cl empty by simp
qed

text \<open>
  C10. The source that a task step registers for itself when the config declares no
  outputs never reports volume affinity. With no declared outputs, \<open>registerSource\<close>
  succeeds and registers the step under its own source name; \<open>VolumeOn\<close> of that source
  answers (no volume, false, no error) for every worker; so no input that names it has
  a volume on any worker, and worker selection puts it among the inputs to stream.
\<close>

theorem TaskStep_source_never_mounts:
  assumes "Outputs config = []"
  shows "\<exists>step'. registerSource env config step = Inr step'
     \<and> SourceFor (repo step') (sourceName step) = Some (TaskStepSource (sourceName step))
     \<and> (\<forall>w. VolumeOn env (TaskStepSource (sourceName step)) w = Inr None)
     \<and> (\<forall>w input. InputName input = sourceName step \<longrightarrow> \<not> hasVolumeOn env (repo step') w input)"
  using assms
  by (simp add: registerSource_def RegisterSource_def SourceFor_def hasVolumeOn_def)

theorem TaskStep_source_never_mounts_witness:
  "Outputs (exampleConfig\<lparr>Outputs := []\<rparr>) = []
   \<and> (\<exists>step'. registerSource exampleEnv (exampleConfig\<lparr>Outputs := []\<rparr>) examplePrepared = Inr step'
     \<and> SourceFor (repo step') ''build'' = Some (TaskStepSource ''build'')
     \<and> (\<forall>w. VolumeOn exampleEnv (TaskStepSource ''build'') w = Inr None)
     \<and> (\<forall>w input. InputName input = ''build'' \<longrightarrow> \<not> hasVolumeOn exampleEnv (repo step') w input))"
proof -
  have h: "Outputs (exampleConfig\<lparr>Outputs := []\<rparr>) = []" by simp
  have n: "sourceName examplePrepared = ''build''"
    by (simp add: examplePrepared_def exampleStep_def)
  show ?thesis
    using h TaskStep_source_never_mounts [OF h, of exampleEnv examplePrepared]
    by (simp add: n)
qed

text \<open>
  C7 does not hold of the code. A run that returns success leaves a declared output
  without a source when the container reports volume mounts of which none is at the
  output's path. Here the example task runs in a new session, its process exits with
  status 0, and the container reports the output volume at \<open>/tmp/build/x/out\<close>, while
  \<open>artifactsPath\<close> gives \<open>/tmp/build/x/out/\<close>: \<open>Run\<close> returns nil and the repository has
  no source named \<open>out\<close>. \<open>registerSource\<close> registers a streaming-only source only when the
  container reports no volume mount at all (see \<open>registerOutputs_registered\<close> for what it
  does guarantee).
\<close>

theorem registerSource_unmatched_output:
  "fst (Run (exampleEnv\<lparr>VolumeMounts := exampleCleanedMounts, Wait := Exited 0\<rparr>) exampleStep)
     = Inr ()
   \<and> Result (snd (Run (exampleEnv\<lparr>VolumeMounts := exampleCleanedMounts, Wait := Exited 0\<rparr>)
                exampleStep)) SuccessPointer = Some (Success True)
   \<and> Outputs exampleConfig = [\<lparr>OutputName = ''out'', OutputPath = ''''\<rparr>]
   \<and> SourceFor (repo (snd (Run (exampleEnv\<lparr>VolumeMounts := exampleCleanedMounts,
                                     Wait := Exited 0\<rparr>) exampleStep))) ''out'' = None"
proof -
  let ?env = "exampleEnv\<lparr>VolumeMounts := exampleCleanedMounts, Wait := Exited 0\<rparr>"
  have fetch: "FetchConfig ?env (repo exampleStep) = Inr exampleConfig"
    by (simp add: exampleEnv_def)
  have prepare: "Run_prepare ?env exampleConfig exampleStep = (Inr WaitForProcess, examplePrepared)"
    by (rule example_prepare_mounts)
  have w: "Wait ?env = Exited 0" by simp
  have c: "container (called [CloseReady] examplePrepared) = Some ''task-container''"
    by (simp add: called_def examplePrepared_def)
  have ok: "SetProperty ?env ''task-container'' taskExitStatusPropertyName (Sprintf_d 0) = None"
    by (simp add: exampleEnv_def)
  have none: "outputSources ?env exampleConfig ''build'' ''/tmp/build/x'' ''task-container''
                = Map.empty"
    by (simp add: outputSources_def exampleConfig_def exampleOutput_def artifactsPath_def
          exampleEnv_def exampleCleanedMounts_def)
  have names: "sourceName (called [CloseReady] examplePrepared) = ''build''"
    "artifactsRoot (called [CloseReady] examplePrepared) = ''/tmp/build/x''"
    "repo (called [CloseReady] examplePrepared) = exampleRepo"
    by (simp_all add: called_def examplePrepared_def exampleStep_def)
  have run: "Run ?env exampleStep = Run_select ?env exampleConfig (called [CloseReady] examplePrepared)"
    using Run_waits [OF fetch prepare] .
  show ?thesis
    apply (simp only: run Run_select_exited [OF w c] ok names none option.case)
    apply (simp add: called_def Result_def SourceFor_def exampleRepo_def exampleConfig_def
        exampleOutput_def)
    done
qed

section \<open>Properties of a new session\<close>

lemma called_called: "called cs (called cs' step) = called (cs' @ cs) step"
  by (simp add: called_def)

lemma called_fields:
  "repo (called cs step) = repo step"
  "artifactsRoot (called cs step) = artifactsRoot step"
  "sourceName (called cs step) = sourceName step"
  "tags (called cs step) = tags step"
  "privileged (called cs step) = privileged step"
  "container (called cs step) = container step"
  "calls (called cs step) = calls step @ cs"
  by (simp_all add: called_def)

lemma inputsOn_missing:
  assumes "\<forall>i \<in> set inputs. \<not> lookupFails env r w i" and "missingNames r inputs \<noteq> []"
  shows "inputsOn env r root inputs w = Inl (MissingInputsError (missingNames r inputs))"
  using inputsOnLoop_missing [of inputs env r w "[]" root "[]" "[]"] assms
  by (simp add: inputsOn_def)

lemma createContainer_missing:
  assumes "\<forall>i \<in> set (Inputs config). \<not> lookupFails env (repo step) w i"
    and "missingNames (repo step) (Inputs config) \<noteq> []"
  shows "createContainer env (w # ws) config step
     = (Inl (MissingInputsError (missingNames (repo step) (Inputs config))), step)"
proof -
  have "chooseWorkerWithMostVolumes env (repo step) (artifactsRoot step) (w # ws) (Inputs config)
          = (Inl (MissingInputsError (missingNames (repo step) (Inputs config))), [])"
    using inputsOn_missing [OF assms, of "artifactsRoot step"]
    by (simp add: chooseWorkerWithMostVolumes_def)
  then show ?thesis
    by (subst createContainer.simps) (simp add: called_def)
qed

lemma Run_new_session:
  assumes "FetchConfig env (repo step) = Inr config"
    and "\<forall>c. FindContainerForIdentifier env \<noteq> Inr (Some c)"
  shows "Run env step =
     (case Run_new env config (step\<lparr>container := None\<rparr>) of
        (Inl err, step1) \<Rightarrow> (Inl err, step1)
      | (Inr ReturnNil, step1) \<Rightarrow> (Inr (), step1)
      | (Inr WaitForProcess, step1) \<Rightarrow> Run_select env config (called [CloseReady] step1))"
proof (cases "FindContainerForIdentifier env")
  case (Inl err)
  with assms(1) show ?thesis by (simp add: Run_def Run_prepare_def)
next
  case (Inr found)
  with assms(2) have "found = None" by (cases found) auto
  with Inr assms(1) show ?thesis by (simp add: Run_def Run_prepare_def)
qed

text \<open>
  A failing volume lookup ends \<open>inputsOn\<close> at once, with the error of the first lookup
  that fails, whatever inputs are missing.
\<close>

lemma inputsOnLoop_lookup_fails:
  assumes "\<forall>p \<in> set pre. \<not> lookupFails env r w p"
    and "SourceFor r (InputName i) = Some source"
    and "VolumeOn env source w = Inl err"
  shows "inputsOnLoop env r root w (pre @ i # post) mounts pairs missing = Inl (Foreign err)"
  using assms(1)
proof (induction pre arbitrary: mounts pairs missing)
  case Nil
  show ?case using assms(2,3) by simp
next
  case (Cons p pre)
  then have IH: "\<And>mounts pairs missing.
      inputsOnLoop env r root w (pre @ i # post) mounts pairs missing = Inl (Foreign err)"
    by simp
  show ?case
  proof (cases "SourceFor r (InputName p)")
    case None
    then show ?thesis using IH by simp
  next
    case (Some src)
    with Cons.prems obtain found where "VolumeOn env src w = Inr found"
      by (cases "VolumeOn env src w") (auto simp: lookupFails_def)
    with Some show ?thesis using IH by (cases found) simp_all
  qed
qed

lemma inputsOn_lookup_fails:
  assumes "\<forall>p \<in> set pre. \<not> lookupFails env r w p"
    and "SourceFor r (InputName i) = Some source"
    and "VolumeOn env source w = Inl err"
  shows "inputsOn env r root (pre @ i # post) w = Inl (Foreign err)"
  using inputsOnLoop_lookup_fails [OF assms] by (simp add: inputsOn_def)

text \<open>
  C8 (as amended). Missing inputs. For every run that starts a new session (the config is
  fetched, no existing container is found, the pool answers with at least one compatible
  worker), in which no volume lookup for a registered input fails on the first compatible
  worker, and whose declared inputs include at least one name with no source registered
  in the repository: the run fails with the missing-inputs error that lists exactly the
  names of the missing inputs, in declaration order, having called nothing but the
  delegate's \<open>Initializing\<close>.
\<close>

theorem Run_missing_inputs:
  assumes "FetchConfig env (repo step) = Inr config"
    and "\<forall>c. FindContainerForIdentifier env \<noteq> Inr (Some c)"
    and "workerPoolAllSatisfying env (workerSpecFor config step) = Inr (w # ws)"
    and "\<forall>i \<in> set (Inputs config). \<not> lookupFails env (repo step) w i"
    and "missingNames (repo step) (Inputs config) \<noteq> []"
  shows "fst (Run env step) = Inl (MissingInputsError (missingNames (repo step) (Inputs config)))
     \<and> calls (snd (Run env step)) = calls step @ [Initializing]"
proof -
  let ?step = "called [Initializing] (step\<lparr>container := None\<rparr>)"
  have spec: "workerSpecFor config (step\<lparr>container := None\<rparr>) = workerSpecFor config step"
    by (simp add: workerSpecFor_def)
  have r: "repo ?step = repo step" by (simp add: called_def)
  have cc: "createContainer env (w # ws) config ?step
     = (Inl (MissingInputsError (missingNames (repo step) (Inputs config))), ?step)"
    using createContainer_missing [of config env ?step w ws] assms(4,5) r by simp
  have "Run_new env config (step\<lparr>container := None\<rparr>)
     = (Inl (MissingInputsError (missingNames (repo step) (Inputs config))),
        ?step\<lparr>container := None\<rparr>)"
    using assms(3) spec cc by (simp add: Run_new_def)
  then show ?thesis
    using Run_new_session [OF assms(1,2)] by (simp add: called_def)
qed

theorem Run_missing_inputs_witness:
  "FetchConfig exampleEnv (repo (exampleStep\<lparr>repo := [''B'' \<mapsto> OtherSource ''B'']\<rparr>))
     = Inr exampleConfig
   \<and> (\<forall>c. FindContainerForIdentifier exampleEnv \<noteq> Inr (Some c))
   \<and> workerPoolAllSatisfying exampleEnv
        (workerSpecFor exampleConfig (exampleStep\<lparr>repo := [''B'' \<mapsto> OtherSource ''B'']\<rparr>))
       = Inr (''w1'' # [''w2'', ''w3''])
   \<and> list_all (\<lambda>i. \<not> lookupFails exampleEnv [''B'' \<mapsto> OtherSource ''B''] ''w1'' i)
        (Inputs exampleConfig)
   \<and> missingNames [''B'' \<mapsto> OtherSource ''B''] (Inputs exampleConfig) = [''A'']
   \<and> fst (Run exampleEnv (exampleStep\<lparr>repo := [''B'' \<mapsto> OtherSource ''B'']\<rparr>))
       = Inl (MissingInputsError [''A''])
   \<and> calls (snd (Run exampleEnv (exampleStep\<lparr>repo := [''B'' \<mapsto> OtherSource ''B'']\<rparr>)))
       = [Initializing]"
proof -
  let ?step = "exampleStep\<lparr>repo := [''B'' \<mapsto> OtherSource ''B'']\<rparr>"
  have h1: "FetchConfig exampleEnv (repo ?step) = Inr exampleConfig"
    by (simp add: exampleEnv_def)
  have h2: "\<forall>c. FindContainerForIdentifier exampleEnv \<noteq> Inr (Some c)"
    by (simp add: exampleEnv_def)
  have h3: "workerPoolAllSatisfying exampleEnv (workerSpecFor exampleConfig ?step)
              = Inr (''w1'' # [''w2'', ''w3''])"
    by (simp add: exampleEnv_def)
  have h4: "\<forall>i \<in> set (Inputs exampleConfig). \<not> lookupFails exampleEnv (repo ?step) ''w1'' i"
    by (simp add: lookupFails_def SourceFor_def exampleEnv_def exampleConfig_def
          exampleInputs_def exampleVolumeOn_def)
  have m: "missingNames (repo ?step) (Inputs exampleConfig) = [''A'']"
    by (simp add: missingNames_def SourceFor_def exampleConfig_def exampleInputs_def)
  then have h5: "missingNames (repo ?step) (Inputs exampleConfig) \<noteq> []" by simp
  have e: "calls ?step = []" by (simp add: exampleStep_def)
  have h4': "list_all (\<lambda>i. \<not> lookupFails exampleEnv [''B'' \<mapsto> OtherSource ''B''] ''w1'' i)
               (Inputs exampleConfig)"
    using h4 by (simp add: list_all_iff)
  show ?thesis
    using h1 h2 h3 h4' m e Run_missing_inputs [OF h1 h2 h3 h4 h5] by simp
qed

text \<open>
  Input \<open>A\<close> has no source, and the run fails with another error: the volume lookup for
  the registered input \<open>B\<close> fails on the worker, and \<open>inputsOn\<close> returns that error from
  inside its loop, before it looks at the missing names.
\<close>

theorem Run_missing_inputs_counterexample:
  "missingNames (repo (exampleStep\<lparr>repo := [''B'' \<mapsto> OtherSource ''B'']\<rparr>))
       (Inputs exampleConfig) = [''A'']
   \<and> fst (Run (exampleEnv\<lparr>workerPoolAllSatisfying := (\<lambda>spec. Inr [''down''])\<rparr>)
             (exampleStep\<lparr>repo := [''B'' \<mapsto> OtherSource ''B'']\<rparr>))
       = Inl (Foreign ''volume lookup failed'')"
proof -
  let ?env = "exampleEnv\<lparr>workerPoolAllSatisfying := (\<lambda>spec. Inr [''down''])\<rparr>"
  let ?step = "exampleStep\<lparr>repo := [''B'' \<mapsto> OtherSource ''B'']\<rparr>"
  have m: "missingNames (repo ?step) (Inputs exampleConfig) = [''A'']"
    by (simp add: missingNames_def SourceFor_def exampleConfig_def exampleInputs_def)
  have h1: "FetchConfig ?env (repo ?step) = Inr exampleConfig"
    by (simp add: exampleEnv_def)
  have h2: "\<forall>c. FindContainerForIdentifier ?env \<noteq> Inr (Some c)"
    by (simp add: exampleEnv_def)
  have choose: "chooseWorkerWithMostVolumes ?env [''B'' \<mapsto> OtherSource ''B''] ''/tmp/build/x''
           [''down''] exampleInputs = (Inl (Foreign ''volume lookup failed''), [])"
    by (simp add: chooseWorkerWithMostVolumes_def inputsOn_def SourceFor_def exampleEnv_def
          exampleInputs_def exampleVolumeOn_def)
  have cc: "createContainer ?env [''down''] exampleConfig
              (called [Initializing] (?step\<lparr>container := None\<rparr>))
            = (Inl (Foreign ''volume lookup failed''),
               called [Initializing] (?step\<lparr>container := None\<rparr>))"
    apply (subst createContainer.simps)
    apply (simp add: called_def exampleStep_def exampleConfig_def choose)
    done
  have "Run_new ?env exampleConfig (?step\<lparr>container := None\<rparr>)
          = (Inl (Foreign ''volume lookup failed''),
             called [Initializing] (?step\<lparr>container := None\<rparr>))"
    by (simp add: Run_new_def cc) (simp add: called_def)
  then show ?thesis
    using m Run_new_session [OF h1 h2] by simp
qed

lemma outputMountsLoop_creates:
  assumes "\<not> VolumeManager env w
     \<or> (\<forall>n. length mounts \<le> n \<and> n < length mounts + length outs
            \<longrightarrow> (\<exists>v. CreateVolume env w n = Inr v))"
  shows "\<exists>mounts' cs. outputMountsLoop env root w outs mounts step = (Inr mounts', called cs step)
     \<and> filter isCreateContainer cs = [] \<and> filter isProcessStart cs = []"
  using assms
proof (induction outs arbitrary: mounts step)
  case Nil
  have "outputMountsLoop env root w [] mounts step = (Inr mounts, called [] step)"
    by (simp add: called_def)
  then show ?case by fastforce
next
  case (Cons out outs)
  show ?case
  proof (cases "VolumeManager env w")
    case False
    have "outputMountsLoop env root w (out # outs) mounts step = (Inr mounts, called [] step)"
      using False by (simp add: called_def)
    then show ?thesis by fastforce
  next
    case True
    with Cons.prems obtain v where v: "CreateVolume env w (length mounts) = Inr v"
      by fastforce
    let ?mounts = "mounts @ [\<lparr>MountVolume = v, MountPath = artifactsPath env out root\<rparr>]"
    have rest: "\<not> VolumeManager env w
       \<or> (\<forall>n. length ?mounts \<le> n \<and> n < length ?mounts + length outs
              \<longrightarrow> (\<exists>v. CreateVolume env w n = Inr v))"
      using Cons.prems True by simp
    from Cons.IH [OF rest, of "called [CreateVolumeCall w] step"]
    obtain mounts' cs where
      eq: "outputMountsLoop env root w outs ?mounts (called [CreateVolumeCall w] step)
             = (Inr mounts', called cs (called [CreateVolumeCall w] step))"
      and none: "filter isCreateContainer cs = []" "filter isProcessStart cs = []"
      by blast
    have "outputMountsLoop env root w (out # outs) mounts step
            = (Inr mounts', called (CreateVolumeCall w # cs) step)"
      using True v eq by (simp add: called_called)
    moreover have "filter isCreateContainer (CreateVolumeCall w # cs) = []"
      "filter isProcessStart (CreateVolumeCall w # cs) = []"
      using none by simp_all
    ultimately show ?thesis by blast
  qed
qed

lemma getContainerImage_unavailable:
  assumes "ImageResource config = Some imageResource"
    and "TrackerInit env w = None"
    and "Check env w = Inr []"
  shows "getContainerImage env w config step
     = (Inl ErrImageUnavailable, called [CheckCall w, ResourceReleaseCall w] step)"
  using assms by (simp add: getContainerImage_def)

lemma createContainer_image_unavailable:
  assumes "ImageResource config = Some imageResource"
    and "chooseWorkerWithMostVolumes env (repo step) (artifactsRoot step) ws (Inputs config)
           = (Inr (Some w, inputMounts, inputsToStream), released)"
    and "\<not> VolumeManager env w
           \<or> (\<forall>n < length (Outputs config). \<exists>v. CreateVolume env w n = Inr v)"
    and "TrackerInit env w = None"
    and "Check env w = Inr []"
  shows "\<exists>cs. createContainer env ws config step = (Inl ErrImageUnavailable, called cs step)
     \<and> filter isCreateContainer cs = [] \<and> filter isProcessStart cs = []"
proof -
  let ?step = "called (map VolumeReleaseCall released) step"
  have creatable: "\<not> VolumeManager env w
     \<or> (\<forall>n. length ([] :: VolumeMount list) \<le> n
              \<and> n < length ([] :: VolumeMount list) + length (Outputs config)
            \<longrightarrow> (\<exists>v. CreateVolume env w n = Inr v))"
    using assms(3) by simp
  from outputMountsLoop_creates [OF creatable, of "artifactsRoot ?step" ?step]
  obtain outputMounts cs where
    loop: "outputMountsLoop env (artifactsRoot ?step) w (Outputs config) [] ?step
             = (Inr outputMounts, called cs ?step)"
    and none: "filter isCreateContainer cs = []" "filter isProcessStart cs = []"
    by blast
  have spec: "containerSpecFor env w config inputMounts ?step
     = (Inl ErrImageUnavailable, called [CheckCall w, ResourceReleaseCall w] (called cs ?step))"
    using loop assms(1) getContainerImage_unavailable [OF assms(1,4,5)]
    by (simp add: containerSpecFor_def)
  have "createContainer env ws config step
     = (Inl ErrImageUnavailable,
        called (map VolumeReleaseCall released @ cs @ [CheckCall w, ResourceReleaseCall w]) step)"
    by (subst createContainer.simps) (simp add: assms(2) spec called_called)
  moreover have
    "filter isCreateContainer
       (map VolumeReleaseCall released @ cs @ [CheckCall w, ResourceReleaseCall w]) = []"
    "filter isProcessStart
       (map VolumeReleaseCall released @ cs @ [CheckCall w, ResourceReleaseCall w]) = []"
    using none by (simp_all add: filter_empty_conv)
  ultimately show ?thesis by blast
qed

text \<open>
  C9. Image unavailability. For every run of a task step with an image resource that
  starts a new session and gets to fetch the image on the chosen worker (worker selection
  succeeds, the output volumes are created, the check session is opened): when the check
  returns an empty list of versions, image fetching fails with the image-unavailable
  error, the run fails with that error, \<open>CreateContainer\<close> is never called, the step has no
  container, and no process is started.
\<close>

theorem Run_image_unavailable:
  assumes "FetchConfig env (repo step) = Inr config"
    and "\<forall>c. FindContainerForIdentifier env \<noteq> Inr (Some c)"
    and "workerPoolAllSatisfying env (workerSpecFor config step) = Inr ws"
    and "ImageResource config = Some imageResource"
    and "chooseWorkerWithMostVolumes env (repo step) (artifactsRoot step) ws (Inputs config)
           = (Inr (Some w, inputMounts, inputsToStream), released)"
    and "\<not> VolumeManager env w
           \<or> (\<forall>n < length (Outputs config). \<exists>v. CreateVolume env w n = Inr v)"
    and "TrackerInit env w = None"
    and "Check env w = Inr []"
  shows "fst (getContainerImage env w config step) = Inl ErrImageUnavailable
     \<and> fst (Run env step) = Inl ErrImageUnavailable
     \<and> container (snd (Run env step)) = None
     \<and> filter isCreateContainer (calls (snd (Run env step)))
         = filter isCreateContainer (calls step)
     \<and> filter isProcessStart (calls (snd (Run env step)))
         = filter isProcessStart (calls step)"
proof -
  let ?step = "called [Initializing] (step\<lparr>container := None\<rparr>)"
  have spec: "workerSpecFor config (step\<lparr>container := None\<rparr>) = workerSpecFor config step"
    by (simp add: workerSpecFor_def)
  have choose: "chooseWorkerWithMostVolumes env (repo ?step) (artifactsRoot ?step) ws
           (Inputs config) = (Inr (Some w, inputMounts, inputsToStream), released)"
    using assms(5) by (simp add: called_def)
  from createContainer_image_unavailable [OF assms(4) choose assms(6,7,8)]
  obtain cs where
    cc: "createContainer env ws config ?step = (Inl ErrImageUnavailable, called cs ?step)"
    and none: "filter isCreateContainer cs = []" "filter isProcessStart cs = []"
    by blast
  have new: "Run_new env config (step\<lparr>container := None\<rparr>)
     = (Inl ErrImageUnavailable, (called cs ?step)\<lparr>container := None\<rparr>)"
    using assms(3) spec cc by (simp add: Run_new_def)
  have run: "Run env step = (Inl ErrImageUnavailable, (called cs ?step)\<lparr>container := None\<rparr>)"
    using Run_new_session [OF assms(1,2)] new by simp
  show ?thesis
    using run none getContainerImage_unavailable [OF assms(4,7,8), of step]
    by (simp add: called_def)
qed

theorem Run_image_unavailable_witness:
  "FetchConfig exampleImageEnv (repo exampleStep) = Inr exampleImageConfig
   \<and> (\<forall>c. FindContainerForIdentifier exampleImageEnv \<noteq> Inr (Some c))
   \<and> workerPoolAllSatisfying exampleImageEnv (workerSpecFor exampleImageConfig exampleStep)
       = Inr [''w1'', ''w2'', ''w3'']
   \<and> ImageResource exampleImageConfig
       = Some \<lparr>ImageType = ''docker-image'', ImageSource = ''busybox''\<rparr>
   \<and> chooseWorkerWithMostVolumes exampleImageEnv (repo exampleStep)
         (artifactsRoot exampleStep) [''w1'', ''w2'', ''w3''] (Inputs exampleImageConfig)
       = (Inr (Some ''w2'',
           [\<lparr>MountVolume = ''A-on-w2'', MountPath = ''/tmp/build/x/A''\<rparr>,
            \<lparr>MountVolume = ''B-on-w2'', MountPath = ''/tmp/build/x/B''\<rparr>], []),
          [''A-on-w1''])
   \<and> TrackerInit exampleImageEnv ''w2'' = None
   \<and> Check exampleImageEnv ''w2'' = Inr []
   \<and> fst (getContainerImage exampleImageEnv ''w2'' exampleImageConfig exampleStep)
       = Inl ErrImageUnavailable
   \<and> fst (Run exampleImageEnv exampleStep) = Inl ErrImageUnavailable
   \<and> container (snd (Run exampleImageEnv exampleStep)) = None
   \<and> filter isCreateContainer (calls (snd (Run exampleImageEnv exampleStep))) = []
   \<and> filter isProcessStart (calls (snd (Run exampleImageEnv exampleStep))) = []"
proof -
  have h1: "FetchConfig exampleImageEnv (repo exampleStep) = Inr exampleImageConfig"
    by (simp add: exampleImageEnv_def)
  have h2: "\<forall>c. FindContainerForIdentifier exampleImageEnv \<noteq> Inr (Some c)"
    by (simp add: exampleImageEnv_def exampleEnv_def)
  have h3: "workerPoolAllSatisfying exampleImageEnv (workerSpecFor exampleImageConfig exampleStep)
       = Inr [''w1'', ''w2'', ''w3'']"
    by (simp add: exampleImageEnv_def exampleEnv_def)
  have h4: "ImageResource exampleImageConfig
       = Some \<lparr>ImageType = ''docker-image'', ImageSource = ''busybox''\<rparr>"
    by (simp add: exampleImageConfig_def)
  have h5: "chooseWorkerWithMostVolumes exampleImageEnv (repo exampleStep)
         (artifactsRoot exampleStep) [''w1'', ''w2'', ''w3''] (Inputs exampleImageConfig)
       = (Inr (Some ''w2'',
           [\<lparr>MountVolume = ''A-on-w2'', MountPath = ''/tmp/build/x/A''\<rparr>,
            \<lparr>MountVolume = ''B-on-w2'', MountPath = ''/tmp/build/x/B''\<rparr>], []),
          [''A-on-w1''])"
    by (simp add: chooseWorkerWithMostVolumes_def inputsOn_def SourceFor_def exampleImageEnv_def
          exampleEnv_def exampleStep_def exampleRepo_def exampleImageConfig_def exampleConfig_def
          exampleInputs_def exampleVolumeOn_def inputDestination_def)
  have h6: "\<not> VolumeManager exampleImageEnv ''w2''
       \<or> (\<forall>n < length (Outputs exampleImageConfig).
             \<exists>v. CreateVolume exampleImageEnv ''w2'' n = Inr v)"
    by (simp add: exampleImageEnv_def exampleEnv_def)
  have h7: "TrackerInit exampleImageEnv ''w2'' = None"
    by (simp add: exampleImageEnv_def exampleEnv_def)
  have h8: "Check exampleImageEnv ''w2'' = Inr []"
    by (simp add: exampleImageEnv_def exampleEnv_def)
  have e: "calls exampleStep = []" by (simp add: exampleStep_def)
  show ?thesis
    using h1 h2 h3 h4 h5 h7 h8 e Run_image_unavailable [OF h1 h2 h3 h4 h5 h6 h7 h8]
    by simp
qed

end
